theory Spec2Isabelle
  imports Main "HOL-Library.Sublist" "HOL-Library.AList"
begin

section \<open>Regular expressions as Python's \<open>re\<close> module runs them\<close>

text \<open>
  The converter uses three patterns, all built from literal characters, the negated class
  \<^verbatim>\<open>[^}]\<close> under a greedy \<^verbatim>\<open>+\<close> or \<^verbatim>\<open>*\<close>, capture groups and one optional
  non-capturing group. The datatype below is that fragment; \<open>rx_match\<close> is the backtracking
  matcher of \<open>re\<close> in continuation-passing style: a greedy quantifier first takes the longest
  run and gives characters back one at a time while the rest of the pattern fails, an option
  first tries its body and then the empty string. Strings are lists of 8-bit characters, so
  the model covers ASCII text.
\<close>

datatype cls = Only char | Except char

datatype rx =
    Eps
  | Ch cls
  | Star cls
  | Plus cls
  | Seq rx rx
  | Opt rx
  | Grp rx

fun in_cls :: "cls \<Rightarrow> char \<Rightarrow> bool" where
  "in_cls (Only c) x = (x = c)"
| "in_cls (Except c) x = (x \<noteq> c)"

text \<open>The remaining input and the texts of the capture groups closed so far.\<close>

type_synonym mstate = "string \<times> string list"

fun star :: "cls \<Rightarrow> (string \<Rightarrow> mstate option) \<Rightarrow> string \<Rightarrow> mstate option" where
  "star c k [] = k []"
| "star c k (x # xs) =
     (if in_cls c x
      then (case star c k xs of Some r \<Rightarrow> Some r | None \<Rightarrow> k (x # xs))
      else k (x # xs))"

primrec rx_match :: "rx \<Rightarrow> (mstate \<Rightarrow> mstate option) \<Rightarrow> mstate \<Rightarrow> mstate option" where
  "rx_match Eps k st = k st"
| "rx_match (Ch c) k st =
     (case fst st of [] \<Rightarrow> None
      | x # xs \<Rightarrow> if in_cls c x then k (xs, snd st) else None)"
| "rx_match (Star c) k st = star c (\<lambda>s'. k (s', snd st)) (fst st)"
| "rx_match (Plus c) k st =
     (case fst st of [] \<Rightarrow> None
      | x # xs \<Rightarrow> if in_cls c x then star c (\<lambda>s'. k (s', snd st)) xs else None)"
| "rx_match (Seq a b) k st = rx_match a (rx_match b k) st"
| "rx_match (Opt a) k st =
     (case rx_match a k st of Some r \<Rightarrow> Some r | None \<Rightarrow> k st)"
| "rx_match (Grp a) k st =
     rx_match a (\<lambda>st'. k (fst st',
        snd st' @ [take (length (fst st) - length (fst st')) (fst st)])) st"

definition seqs :: "rx list \<Rightarrow> rx" where
  "seqs rs = foldr Seq rs Eps"

text \<open>
  A match attempt at the start of \<open>s\<close>: the groups (in the order they close, which for
  patterns without nested groups is their number) and the text after the match.
\<close>

definition match_at :: "rx \<Rightarrow> string \<Rightarrow> (string list \<times> string) option" where
  "match_at r s = (case rx_match r Some (s, []) of
      None \<Rightarrow> None | Some (s', gs) \<Rightarrow> Some (gs, s'))"

text \<open>
  \<open>re.findall\<close> and \<open>re.sub\<close> scan from left to right: a match at the current position is
  taken and the scan goes on after it, otherwise the scan moves one character on. After an
  empty match the scan moves one character on as well; the three patterns below cannot
  match the empty string, so that branch is never run for them. \<open>re_findall\<close> returns the
  groups of every match (for a pattern with one group Python returns that group's text);
  \<open>re_sub\<close> is called with a function, whose result is inserted as it is.
\<close>

fun re_findall :: "rx \<Rightarrow> string \<Rightarrow> string list list" where
  "re_findall r [] = (case match_at r [] of Some (gs, _) \<Rightarrow> [gs] | None \<Rightarrow> [])"
| "re_findall r (x # xs) =
     (case match_at r (x # xs) of
        Some (gs, s') \<Rightarrow>
          if length s' < length (x # xs) then gs # re_findall r s'
          else gs # re_findall r xs
      | None \<Rightarrow> re_findall r xs)"

fun re_sub :: "rx \<Rightarrow> (string list \<Rightarrow> string) \<Rightarrow> string \<Rightarrow> string" where
  "re_sub r f [] = (case match_at r [] of Some (gs, _) \<Rightarrow> f gs | None \<Rightarrow> [])"
| "re_sub r f (x # xs) =
     (case match_at r (x # xs) of
        Some (gs, s') \<Rightarrow>
          if length s' < length (x # xs) then f gs @ re_sub r f s'
          else f gs @ x # re_sub r f xs
      | None \<Rightarrow> x # re_sub r f xs)"

section \<open>Placeholders\<close>

text \<open>
  The Variable Table \<open>self.variables\<close> is a Python dict from names to suggested values;
  an association list keeps its insertion order.
\<close>

type_synonym variables = "(string \<times> string) list"

definition has_key :: "string \<Rightarrow> (string \<times> 'v) list \<Rightarrow> bool" where
  "has_key k d = (k \<in> fst ` set d)"

text \<open>\<^verbatim>\<open>r'\$\{([^}]+)(?::-[^}]*)?\}'\<close> of \<open>_find_env_vars\<close>.\<close>

definition pat_find :: rx where
  "pat_find = seqs [Ch (Only CHR ''$''), Ch (Only CHR ''{''),
     Grp (Plus (Except CHR ''}'')),
     Opt (seqs [Ch (Only CHR '':''), Ch (Only CHR ''-''), Star (Except CHR ''}'')]),
     Ch (Only CHR ''}'')]"

text \<open>\<^verbatim>\<open>r'\$\{([^}]+):-([^}]+)\}'\<close>, the first substitution of \<open>_replace_env_vars\<close>.\<close>

definition pat_default :: rx where
  "pat_default = seqs [Ch (Only CHR ''$''), Ch (Only CHR ''{''),
     Grp (Plus (Except CHR ''}'')),
     Ch (Only CHR '':''), Ch (Only CHR ''-''),
     Grp (Plus (Except CHR ''}'')),
     Ch (Only CHR ''}'')]"

text \<open>\<^verbatim>\<open>r'\$\{([^}]+)\}'\<close>, the second substitution of \<open>_replace_env_vars\<close>.\<close>

definition pat_bare :: rx where
  "pat_bare = seqs [Ch (Only CHR ''$''), Ch (Only CHR ''{''),
     Grp (Plus (Except CHR ''}'')),
     Ch (Only CHR ''}'')]"

text \<open>\<open>_find_env_vars\<close>: the texts of group 1, in the order of the matches. Python makes a
  set of them; see \<open>extract_variables\<close> for how the set is enumerated.\<close>

definition find_env_vars :: "string \<Rightarrow> string list" where
  "find_env_vars text = map hd (re_findall pat_find text)"

text \<open>
  The inner function \<open>replace_var\<close> of \<open>_replace_env_vars\<close>. \<open>match.group(2)\<close> is read only
  when the pattern has more than one group, and the \<open>elif\<close> tests its truth value: a
  non-empty string.
\<close>

definition ref_to :: "string \<Rightarrow> string" where
  "ref_to var_name = ''${'' @ var_name @ ''}''"

definition replace_var :: "variables \<Rightarrow> string list \<Rightarrow> string" where
  "replace_var vars groups =
     (let var_name = hd groups;
          default_value = (if length groups > 1 then Some (groups ! 1) else None)
      in if has_key var_name vars then ref_to var_name
         else (case default_value of
                 Some d \<Rightarrow> if d \<noteq> [] then d else ref_to var_name
               | None \<Rightarrow> ref_to var_name))"

definition replace_env_vars :: "variables \<Rightarrow> string \<Rightarrow> string" where
  "replace_env_vars vars text =
     (let text1 = re_sub pat_default (replace_var vars) text
      in re_sub pat_bare (replace_var vars) text1)"

section \<open>Python values and library functions\<close>

text \<open>
  What \<open>yaml.safe_load\<close> returns: \<open>None\<close>, booleans, integers, floats, strings, lists and
  dicts. A float is represented by the text Python's \<open>str\<close> gives for it. Dict keys are
  strings, as the keys of a Compose file are; a dict is an association list in insertion
  order, and the parser gives distinct keys. Timestamps, binary data and sets are left out.
\<close>

datatype yaml =
    YNull
  | YBool bool
  | YInt int
  | YFloat string
  | YStr string
  | YList "yaml list"
  | YDict "(string \<times> yaml) list"

datatype error = AttributeError | TypeError | ValueError | OSError | YAMLError

definition and_then :: "error + 'a \<Rightarrow> ('a \<Rightarrow> error + 'b) \<Rightarrow> error + 'b" where
  "and_then m f = (case m of Inl e \<Rightarrow> Inl e | Inr x \<Rightarrow> f x)"

fun map_err :: "('a \<Rightarrow> error + 'b) \<Rightarrow> 'a list \<Rightarrow> error + 'b list" where
  "map_err f [] = Inr []"
| "map_err f (x # xs) =
     and_then (f x) (\<lambda>y. and_then (map_err f xs) (\<lambda>ys. Inr (y # ys)))"

text \<open>The truth value Python gives a value in \<open>if v:\<close>.\<close>

fun truthy :: "yaml \<Rightarrow> bool" where
  "truthy YNull = False"
| "truthy (YBool b) = b"
| "truthy (YInt i) = (i \<noteq> 0)"
| "truthy (YFloat r) = (r \<noteq> ''0.0'' \<and> r \<noteq> ''-0.0'')"
| "truthy (YStr s) = (s \<noteq> [])"
| "truthy (YList xs) = (xs \<noteq> [])"
| "truthy (YDict kvs) = (kvs \<noteq> [])"

text \<open>\<open>d.get(key, dflt)\<close>: only a dict has the method.\<close>

definition dict_get :: "(string \<times> 'v) list \<Rightarrow> string \<Rightarrow> 'v \<Rightarrow> 'v" where
  "dict_get d key dflt = (case map_of d key of Some v \<Rightarrow> v | None \<Rightarrow> dflt)"

definition py_get :: "yaml \<Rightarrow> string \<Rightarrow> yaml \<Rightarrow> error + yaml" where
  "py_get v key dflt =
     (case v of YDict d \<Rightarrow> Inr (dict_get d key dflt) | _ \<Rightarrow> Inl AttributeError)"

text \<open>\<open>v.items()\<close>: only a dict has the method.\<close>

definition py_items :: "yaml \<Rightarrow> error + (string \<times> yaml) list" where
  "py_items v = (case v of YDict d \<Rightarrow> Inr d | _ \<Rightarrow> Inl AttributeError)"

text \<open>\<open>for x in v\<close>: a list gives its elements, a dict its keys, a string its characters;
  the other values are not iterable.\<close>

definition py_iter :: "yaml \<Rightarrow> error + yaml list" where
  "py_iter v =
     (case v of
        YList xs \<Rightarrow> Inr xs
      | YDict d \<Rightarrow> Inr (map (\<lambda>kv. YStr (fst kv)) d)
      | YStr s \<Rightarrow> Inr (map (\<lambda>c. YStr [c]) s)
      | _ \<Rightarrow> Inl TypeError)"

definition dq :: string where
  "dq = [CHR 0x22]"

definition backslash :: string where
  "backslash = [CHR 0x5C]"

definition newline :: string where
  "newline = [CHR 0x0A]"

text \<open>\<open>sep.join(xs)\<close>.\<close>

fun join :: "string \<Rightarrow> string list \<Rightarrow> string" where
  "join sep [] = []"
| "join sep [x] = x"
| "join sep (x # y # ys) = x @ sep @ join sep (y # ys)"

text \<open>\<open>str(i)\<close> for an integer.\<close>

definition digit_char :: "nat \<Rightarrow> char" where
  "digit_char n = ''0123456789'' ! (n mod 10)"

fun show_nat :: "nat \<Rightarrow> string" where
  "show_nat n = (if n < 10 then [digit_char n] else show_nat (n div 10) @ [digit_char (n mod 10)])"

declare show_nat.simps [simp del]

definition show_int :: "int \<Rightarrow> string" where
  "show_int i = (if i < 0 then ''-'' @ show_nat (nat (- i)) else show_nat (nat i))"

text \<open>
  \<open>repr(s)\<close> for a string: single quotes unless the string has a single quote and no
  double quote; the quote and the backslash are escaped, tab, newline and carriage return
  are written \<^verbatim>\<open>\t\<close>, \<^verbatim>\<open>\n\<close>, \<^verbatim>\<open>\r\<close>, the other control characters as
  \<^verbatim>\<open>\xNN\<close>.
\<close>

definition hex_digit :: "nat \<Rightarrow> char" where
  "hex_digit n = ''0123456789abcdef'' ! (n mod 16)"

definition repr_char :: "char \<Rightarrow> char \<Rightarrow> string" where
  "repr_char quote c =
     (if c = quote \<or> c = CHR 0x5C then [CHR 0x5C, c]
      else if c = CHR 0x09 then backslash @ ''t''
      else if c = CHR 0x0A then backslash @ ''n''
      else if c = CHR 0x0D then backslash @ ''r''
      else if (of_char c :: nat) < 32 \<or> (of_char c :: nat) = 127
        then backslash @ ''x'' @ [hex_digit (of_char c div 16), hex_digit (of_char c)]
      else [c])"

definition repr_str :: "string \<Rightarrow> string" where
  "repr_str s =
     (let quote = (if CHR 0x27 \<in> set s \<and> CHR 0x22 \<notin> set s then CHR 0x22 else CHR 0x27)
      in [quote] @ concat (map (repr_char quote) s) @ [quote])"

text \<open>\<open>repr(v)\<close> and \<open>str(v)\<close>; an f-string formats a value with \<open>str\<close>.\<close>

fun py_repr :: "yaml \<Rightarrow> string" where
  "py_repr YNull = ''None''"
| "py_repr (YBool b) = (if b then ''True'' else ''False'')"
| "py_repr (YInt i) = show_int i"
| "py_repr (YFloat r) = r"
| "py_repr (YStr s) = repr_str s"
| "py_repr (YList xs) = ''['' @ join '', '' (map py_repr xs) @ '']''"
| "py_repr (YDict kvs) =
     ''{'' @ join '', '' (map (\<lambda>kv. repr_str (fst kv) @ '': '' @ py_repr (snd kv)) kvs) @ ''}''"

definition py_str :: "yaml \<Rightarrow> string" where
  "py_str v = (case v of YStr s \<Rightarrow> s | _ \<Rightarrow> py_repr v)"

text \<open>\<open>s.lower()\<close>, on ASCII letters.\<close>

definition lower_char :: "char \<Rightarrow> char" where
  "lower_char c =
     (case map_of (zip ''ABCDEFGHIJKLMNOPQRSTUVWXYZ'' ''abcdefghijklmnopqrstuvwxyz'') c of
        Some l \<Rightarrow> l
      | None \<Rightarrow> c)"

definition lower :: "string \<Rightarrow> string" where
  "lower s = map lower_char s"

text \<open>\<open>s.split(sep)\<close> for a separator of one character.\<close>

fun split_on :: "char \<Rightarrow> string \<Rightarrow> string list" where
  "split_on sep [] = [[]]"
| "split_on sep (x # xs) =
     (if x = sep then [] # split_on sep xs
      else (case split_on sep xs of p # ps \<Rightarrow> (x # p) # ps | [] \<Rightarrow> [[x]]))"

text \<open>\<open>s.replace(old, new, 1)\<close>: the first occurrence of \<open>old\<close> from the left.\<close>

fun str_replace1 :: "string \<Rightarrow> string \<Rightarrow> string \<Rightarrow> string" where
  "str_replace1 old new [] = (if old = [] then new else [])"
| "str_replace1 old new (x # xs) =
     (if prefix old (x # xs) then new @ drop (length old) (x # xs)
      else x # str_replace1 old new xs)"

text \<open>
  \<open>Path(p).parent.name\<close>: \<open>pathlib\<close> drops empty and \<^verbatim>\<open>.\<close> components; the parent is the
  path without its last component and its name is the last component left, or the empty
  string.
\<close>

definition parent_name :: "string \<Rightarrow> string" where
  "parent_name p =
     (let comps = filter (\<lambda>c. c \<noteq> [] \<and> c \<noteq> ''.'') (split_on CHR ''/'' p);
          par = butlast comps
      in if par = [] then [] else last par)"

section \<open>The converter\<close>

text \<open>
  The fields of \<open>ComposeToQuadletConverter\<close>. Both tables are Python dicts, kept as
  association lists in insertion order; \<open>AList.update\<close> is the assignment \<open>d[k] = v\<close>
  (an existing key keeps its place, a new one goes to the end).
\<close>

record converter =
  variables :: variables
  networks :: "yaml set"
  volumes :: "(string \<times> string) list"

definition init :: converter where
  "init = \<lparr>variables = [], networks = {}, volumes = []\<rparr>"

subsection \<open>\<open>_process_volumes\<close>\<close>

definition volume_target :: "string \<Rightarrow> yaml \<Rightarrow> string" where
  "volume_target volume_name volume_config =
     (if (case volume_config of YDict d \<Rightarrow> truthy (dict_get d ''external'' YNull) | _ \<Rightarrow> False)
      then volume_name
      else ''${STACK_PATH}/'' @ volume_name)"

fun process_volumes_loop :: "(string \<times> yaml) list \<Rightarrow> (string \<times> string) list \<Rightarrow> (string \<times> string) list" where
  "process_volumes_loop [] table = table"
| "process_volumes_loop ((volume_name, volume_config) # rest) table =
     process_volumes_loop rest
       (AList.update volume_name (volume_target volume_name volume_config) table)"

definition process_volumes :: "yaml \<Rightarrow> yaml \<Rightarrow> converter \<Rightarrow> error + converter" where
  "process_volumes vols project_name self =
     and_then (py_items vols) (\<lambda>items.
       Inr (self\<lparr>volumes := process_volumes_loop items (volumes self)\<rparr>))"

subsection \<open>\<open>_suggest_variable_value\<close> and \<open>_extract_variables\<close>\<close>

definition suggestions :: "(string \<times> string) list" where
  "suggestions =
     [(''IMMICH_VERSION'', dq @ ''v1.125.7'' @ dq),
      (''UPLOAD_LOCATION'', dq @ ''/main/immich'' @ dq),
      (''DB_DATA_LOCATION'', dq @ ''${STACK_PATH}/pgdata'' @ dq),
      (''STACK_PATH'', dq @ ''/etc/stacks/immich'' @ dq),
      (''DB_PASSWORD'', ''config.sops.secrets.dbPassword.path''),
      (''DB_USERNAME'', dq @ ''postgres'' @ dq),
      (''DB_DATABASE_NAME'', dq @ ''immich'' @ dq)]"

definition suggest_variable_value :: "string \<Rightarrow> string" where
  "suggest_variable_value var_name =
     dict_get suggestions var_name (dq @ lower var_name @ dq)"

text \<open>\<open>re.findall\<close> on a value that is not a string raises \<open>TypeError\<close>.\<close>

definition find_env_vars_in :: "yaml \<Rightarrow> error + string list" where
  "find_env_vars_in v = (case v of YStr s \<Rightarrow> Inr (find_env_vars s) | _ \<Rightarrow> Inl TypeError)"

definition strings_env_vars :: "yaml list \<Rightarrow> string list" where
  "strings_env_vars vs =
     concat (map (\<lambda>v. case v of YStr s \<Rightarrow> find_env_vars s | _ \<Rightarrow> []) vs)"

text \<open>The body of the first loop of \<open>_extract_variables\<close>: the names one service adds.\<close>

definition service_env_vars :: "yaml \<Rightarrow> error + string list" where
  "service_env_vars service_config =
     and_then (py_get service_config ''image'' (YStr [])) (\<lambda>image.
     and_then (find_env_vars_in image) (\<lambda>from_image.
     and_then (py_get service_config ''volumes'' (YList [])) (\<lambda>vols.
     and_then (py_iter vols) (\<lambda>vol_items.
     and_then (py_get service_config ''environment'' (YDict [])) (\<lambda>environment.
       Inr (from_image @ strings_env_vars vol_items @
            (case environment of
               YDict d \<Rightarrow> strings_env_vars (map snd d)
             | _ \<Rightarrow> [])))))))"

fun collect_env_vars :: "(string \<times> yaml) list \<Rightarrow> error + string list" where
  "collect_env_vars [] = Inr []"
| "collect_env_vars ((service_name, service_config) # rest) =
     and_then (service_env_vars service_config) (\<lambda>found.
     and_then (collect_env_vars rest) (\<lambda>more. Inr (found @ more)))"

text \<open>
  The second loop of \<open>_extract_variables\<close>, over an enumeration \<open>env_vars\<close> of the set of
  names: a name already in the table is skipped.
\<close>

fun add_variables :: "string list \<Rightarrow> variables \<Rightarrow> variables" where
  "add_variables [] table = table"
| "add_variables (var # rest) table =
     add_variables rest
       (if \<not> has_key var table
        then AList.update var (suggest_variable_value var) table
        else table)"

text \<open>
  Python enumerates a set in an order the language does not fix; the model takes the
  names in the order \<open>remdups\<close> leaves them. The table read as a map does not depend on
  the order.
\<close>

definition extract_variables :: "yaml \<Rightarrow> converter \<Rightarrow> error + converter" where
  "extract_variables services self =
     and_then (py_items services) (\<lambda>items.
     and_then (collect_env_vars items) (\<lambda>found.
       Inr (self\<lparr>variables := add_variables (remdups found) (variables self)\<rparr>)))"

subsection \<open>\<open>_extract_dependencies\<close>\<close>

definition service_deps :: "yaml \<Rightarrow> error + yaml list" where
  "service_deps service_config =
     and_then (py_get service_config ''depends_on'' (YList [])) (\<lambda>deps.
       Inr (case deps of
              YDict d \<Rightarrow> map (\<lambda>kv. YStr (fst kv)) d
            | YList xs \<Rightarrow> xs
            | _ \<Rightarrow> []))"

fun extract_dependencies_loop ::
  "(string \<times> yaml) list \<Rightarrow> (string \<times> yaml list) list \<Rightarrow> error + (string \<times> yaml list) list" where
  "extract_dependencies_loop [] dependencies = Inr dependencies"
| "extract_dependencies_loop ((service_name, service_config) # rest) dependencies =
     and_then (service_deps service_config) (\<lambda>deps.
       extract_dependencies_loop rest (AList.update service_name deps dependencies))"

definition extract_dependencies :: "yaml \<Rightarrow> error + (string \<times> yaml list) list" where
  "extract_dependencies services =
     and_then (py_items services) (\<lambda>items. extract_dependencies_loop items [])"

subsection \<open>\<open>_convert_volume\<close>\<close>

text \<open>
  The loop over \<open>self.volumes\<close>: the first declared name that the mount starts with
  (followed by a colon) is replaced by its target, and the loop stops.
\<close>

fun subst_named_volume :: "(string \<times> string) list \<Rightarrow> string \<Rightarrow> string" where
  "subst_named_volume [] volume = volume"
| "subst_named_volume ((vol_name, target) # rest) volume =
     (if prefix (vol_name @ '':'') volume
      then str_replace1 (vol_name @ '':'') (target @ '':'') volume
      else subst_named_volume rest volume)"

definition add_z :: "string \<Rightarrow> string" where
  "add_z volume =
     (if CHR '':'' \<in> set volume \<and> \<not> suffix '':ro'' volume \<and> \<not> suffix '':z'' volume
      then (let parts = split_on CHR '':'' volume
            in if length parts = 2 \<and> \<not> prefix ''/dev'' (hd parts) \<and> \<not> prefix ''/etc'' (hd parts)
               then volume @ '':z''
               else volume)
      else volume)"

text \<open>
  A value that is neither a dict nor a string has no \<open>startswith\<close>
  (\<open>AttributeError\<close>, when the loop runs at all) and is refused by \<open>re.sub\<close>
  (\<open>TypeError\<close>).
\<close>

definition convert_volume :: "converter \<Rightarrow> yaml \<Rightarrow> error + string" where
  "convert_volume self volume =
     (case volume of
        YDict d \<Rightarrow> Inr (py_str volume)
      | YStr v \<Rightarrow>
          Inr (add_z (replace_env_vars (variables self) (subst_named_volume (volumes self) v)))
      | _ \<Rightarrow> Inl (if volumes self = [] then TypeError else AttributeError))"

subsection \<open>\<open>_generate_container_config\<close>\<close>

text \<open>The function builds a list of lines, block by block in the order below, and joins
  them with newlines. Each block is given here as the lines it adds.\<close>

definition image_block :: "converter \<Rightarrow> yaml \<Rightarrow> error + string list" where
  "image_block self service_config =
     and_then (py_get service_config ''image'' (YStr [])) (\<lambda>image.
       if truthy image
       then (case image of
               YStr s \<Rightarrow>
                 Inr [''            image = '' @ dq @ replace_env_vars (variables self) s @ dq @ '';'']
             | _ \<Rightarrow> Inl TypeError)
       else Inr [])"

text \<open>The text put between the quotes for one entry of \<open>ports\<close>.\<close>

definition render_port :: "yaml \<Rightarrow> string" where
  "render_port port =
     (case port of
        YStr p \<Rightarrow>
          if CHR '':'' \<in> set p
          then (if \<not> prefix ''127.0.0.1:'' p \<and> \<not> prefix ''0.0.0.0:'' p
                then ''127.0.0.1:'' @ p
                else p)
          else p
      | _ \<Rightarrow> py_str port)"

definition ports_block :: "yaml \<Rightarrow> error + string list" where
  "ports_block service_config =
     and_then (py_get service_config ''ports'' (YList [])) (\<lambda>ports.
       if truthy ports
       then and_then (py_iter ports) (\<lambda>items.
              Inr ([''            publishPorts = ['']
                   @ map (\<lambda>port. ''              '' @ dq @ render_port port @ dq) items
                   @ [''            ];'']))
       else Inr [])"

definition volumes_block :: "converter \<Rightarrow> yaml \<Rightarrow> error + string list" where
  "volumes_block self service_config =
     and_then (py_get service_config ''volumes'' (YList [])) (\<lambda>vols.
       if truthy vols
       then and_then (py_iter vols) (\<lambda>items.
            and_then (map_err (convert_volume self) items) (\<lambda>strs.
              Inr ([''            volumes = ['']
                   @ map (\<lambda>volume_str. ''              '' @ dq @ volume_str @ dq) strs
                   @ [''            ];''])))
       else Inr [])"

definition env_file_block :: "yaml \<Rightarrow> error + string list" where
  "env_file_block service_config =
     and_then (py_get service_config ''env_file'' YNull) (\<lambda>env_file.
       if truthy env_file
       then Inr [''            environmentFiles = [ config.sops.secrets.envFile.path ];'']
       else Inr [])"

text \<open>The text put between the quotes for one value of \<open>environment\<close>.\<close>

definition render_env_value :: "converter \<Rightarrow> yaml \<Rightarrow> string" where
  "render_env_value self v =
     (case v of
        YStr s \<Rightarrow> replace_env_vars (variables self) s
      | _ \<Rightarrow> py_str v)"

definition environment_block :: "converter \<Rightarrow> yaml \<Rightarrow> error + string list" where
  "environment_block self service_config =
     and_then (py_get service_config ''environment'' (YDict [])) (\<lambda>environment.
       if truthy environment
       then (case environment of
               YDict d \<Rightarrow>
                 Inr ([''            environments = {'']
                      @ map (\<lambda>kv. ''              '' @ fst kv @ '' = '' @ dq
                                    @ render_env_value self (snd kv) @ dq @ '';'') d
                      @ [''            };''])
             | _ \<Rightarrow> Inr [])
       else Inr [])"

text \<open>\<open>' '.join(xs)\<close> raises \<open>TypeError\<close> on an element that is not a string.\<close>

definition join_strs :: "string \<Rightarrow> yaml list \<Rightarrow> error + string" where
  "join_strs sep xs =
     and_then (map_err (\<lambda>v. case v of YStr s \<Rightarrow> Inr s | _ \<Rightarrow> Inl TypeError) xs) (\<lambda>strs.
       Inr (join sep strs))"

definition healthcheck_block :: "yaml \<Rightarrow> error + string list" where
  "healthcheck_block service_config =
     and_then (py_get service_config ''healthcheck'' (YDict [])) (\<lambda>healthcheck.
       if truthy healthcheck
       then and_then (py_get healthcheck ''disable'' YNull) (\<lambda>disable.
              if \<not> truthy disable
              then and_then (py_get healthcheck ''test'' YNull) (\<lambda>test.
                     if truthy test
                     then and_then
                            (case test of
                               YList xs \<Rightarrow> join_strs '' '' (drop 1 xs)
                             | _ \<Rightarrow> Inr (py_str test))
                            (\<lambda>t. Inr [''            healthCmd = '' @ dq @ t @ dq @ '';''])
                     else Inr [])
              else Inr [])
       else Inr [])"

definition labels_block :: "string list" where
  "labels_block =
     [''            labels = ['',
      ''              '' @ dq @ ''wud.tag.include=^v'' @ backslash @ backslash @ ''d+''
        @ backslash @ backslash @ ''.'' @ backslash @ backslash @ ''d+''
        @ backslash @ backslash @ ''.'' @ backslash @ backslash @ ''d+$'' @ dq,
      ''            ];'']"

definition restart_block :: "yaml \<Rightarrow> error + string list" where
  "restart_block service_config =
     and_then (py_get service_config ''restart'' YNull) (\<lambda>restart.
       if truthy restart
       then Inr [''          serviceConfig = {'',
                 ''            Restart = '' @ dq @ py_str restart @ dq @ '';'',
                 ''          };'']
       else Inr [])"

definition unit_block :: "yaml list \<Rightarrow> string list" where
  "unit_block deps =
     (if deps \<noteq> []
      then (let dep_services =
                  map (\<lambda>dep. ''              '' @ dq @ py_str dep @ ''.service'' @ dq) deps
            in [''          unitConfig = {'',
                ''            After = ['',
                join newline dep_services,
                ''            ];'',
                ''            Requires = ['',
                join newline dep_services,
                ''            ];'',
                ''          };''])
      else [])"

definition generate_container_config ::
  "converter \<Rightarrow> string \<Rightarrow> yaml \<Rightarrow> yaml list \<Rightarrow> yaml \<Rightarrow> error + string" where
  "generate_container_config self service_name service_config deps project_name =
     and_then (image_block self service_config) (\<lambda>image_lines.
     and_then (ports_block service_config) (\<lambda>port_lines.
     and_then (volumes_block self service_config) (\<lambda>volume_lines.
     and_then (env_file_block service_config) (\<lambda>env_file_lines.
     and_then (environment_block self service_config) (\<lambda>environment_lines.
     and_then (healthcheck_block service_config) (\<lambda>healthcheck_lines.
     and_then (restart_block service_config) (\<lambda>restart_lines.
       Inr (join newline
         ([''        '' @ service_name @ '' = {'',
           ''          containerConfig = {'']
          @ image_lines @ port_lines @ volume_lines @ env_file_lines
          @ environment_lines @ healthcheck_lines
          @ [''            networks = [ networks.'' @ py_str project_name @ ''.ref ];'']
          @ labels_block
          @ [''          };'']
          @ restart_lines
          @ unit_block deps
          @ [''        };'', []])))))))))"

subsection \<open>\<open>_generate_nix_config\<close>\<close>

text \<open>\<open>self.networks.add(project_name)\<close> needs a hashable value: a list or a dict is not.\<close>

definition hashable :: "yaml \<Rightarrow> bool" where
  "hashable v = (case v of YList xs \<Rightarrow> False | YDict d \<Rightarrow> False | _ \<Rightarrow> True)"

definition generate_nix_config ::
  "converter \<Rightarrow> yaml \<Rightarrow> yaml \<Rightarrow> (string \<times> yaml list) list \<Rightarrow> error + (string \<times> converter)" where
  "generate_nix_config self services project_name dependencies =
     (let let_bindings =
            map (\<lambda>kv. ''      '' @ fst kv @ '' = '' @ snd kv @ '';'') (variables self)
            @ [''      STACK_PATH = '' @ dq @ ''/etc/stacks/'' @ py_str project_name @ dq @ '';'',
               ''      inherit (config.virtualisation.quadlet) networks;'']
      in if \<not> hashable project_name then Inl TypeError
         else (let self' = self\<lparr>networks := insert project_name (networks self)\<rparr>
               in and_then (py_items services) (\<lambda>items.
                  and_then (map_err (\<lambda>kv. generate_container_config self' (fst kv) (snd kv)
                                             (dict_get dependencies (fst kv) []) project_name) items)
                    (\<lambda>containers.
                       Inr (join newline
                              [''  virtualisation.quadlet ='',
                               ''    let'',
                               join newline let_bindings,
                               ''    in'',
                               ''    {'',
                               ''      networks.'' @ py_str project_name
                                 @ ''.networkConfig.driver = '' @ dq @ ''bridge'' @ dq @ '';'',
                               ''      containers = {'',
                               join newline containers,
                               ''      };'',
                               ''    };''],
                            self')))))"

subsection \<open>\<open>convert\<close> and \<open>main\<close>\<close>

text \<open>
  The file system is a map from paths to the contents of the files there. The YAML
  parser is a library: \<open>safe_load\<close> is a parameter, from the text of a file to the parsed
  value or an error. Writing a file replaces its contents; failures of the operating
  system while the output is written are not modelled.
\<close>

type_synonym fs = "string \<Rightarrow> string option"

definition opt_truthy :: "string option \<Rightarrow> bool" where
  "opt_truthy a = (case a of Some s \<Rightarrow> s \<noteq> [] | None \<Rightarrow> False)"

text \<open>Lines 22 to 44 of \<open>convert\<close>: everything up to the assembled text \<open>nix_config\<close>.\<close>

definition assemble ::
  "(string \<Rightarrow> error + yaml) \<Rightarrow> fs \<Rightarrow> converter \<Rightarrow> string \<Rightarrow> string option
     \<Rightarrow> error + (string \<times> converter)" where
  "assemble safe_load files self compose_path project_name =
     and_then (case files compose_path of None \<Rightarrow> Inl OSError | Some text \<Rightarrow> safe_load text)
       (\<lambda>compose_data.
     if \<not> truthy compose_data then Inl ValueError
     else
     and_then (if \<not> opt_truthy project_name
               then py_get compose_data ''name'' (YStr (parent_name compose_path))
               else Inr (YStr (the project_name))) (\<lambda>project_name'.
     and_then (py_get compose_data ''services'' (YDict [])) (\<lambda>services.
     and_then (py_get compose_data ''volumes'' (YDict [])) (\<lambda>vols.
     and_then (process_volumes vols project_name' self) (\<lambda>self1.
     and_then (extract_variables services self1) (\<lambda>self2.
     and_then (extract_dependencies services) (\<lambda>dependencies.
       generate_nix_config self2 services project_name' dependencies)))))))"

definition convert ::
  "(string \<Rightarrow> error + yaml) \<Rightarrow> fs \<Rightarrow> converter \<Rightarrow> string \<Rightarrow> string option \<Rightarrow> string option
     \<Rightarrow> (error + string) \<times> fs" where
  "convert safe_load files self compose_path output_file project_name =
     (case assemble safe_load files self compose_path project_name of
        Inl e \<Rightarrow> (Inl e, files)
      | Inr (nix_config, self') \<Rightarrow>
          if opt_truthy output_file
          then (Inr nix_config, files(the output_file \<mapsto> nix_config))
          else (Inr nix_config, files))"

text \<open>The parsed command line: the positional argument, \<^verbatim>\<open>-o\<close> and \<^verbatim>\<open>-n\<close>.\<close>

record args =
  compose_file :: string
  output_arg :: "string option"
  name_arg :: "string option"

record outcome =
  exit_code :: nat
  stdout :: string
  stderr :: string
  files_after :: fs

text \<open>\<open>exc_text\<close> is the text Python prints for an exception (\<open>str(e)\<close>).\<close>

definition main ::
  "(string \<Rightarrow> error + yaml) \<Rightarrow> (error \<Rightarrow> string) \<Rightarrow> fs \<Rightarrow> args \<Rightarrow> outcome" where
  "main safe_load exc_text files a =
     (if compose_file a \<notin> dom files
      then \<lparr>exit_code = 1, stdout = [],
            stderr = ''Error: '' @ compose_file a @ '' not found'' @ newline,
            files_after = files\<rparr>
      else (case convert safe_load files init (compose_file a) (output_arg a) (name_arg a) of
              (Inr result, files') \<Rightarrow>
                if \<not> opt_truthy (output_arg a)
                then \<lparr>exit_code = 0, stdout = result @ newline, stderr = [],
                      files_after = files'\<rparr>
                else \<lparr>exit_code = 0,
                      stdout = ''Converted '' @ compose_file a @ '' to '' @ the (output_arg a) @ newline,
                      stderr = [], files_after = files'\<rparr>
            | (Inl e, files') \<Rightarrow>
                \<lparr>exit_code = 1, stdout = [],
                 stderr = ''Error: '' @ exc_text e @ newline,
                 files_after = files'\<rparr>))"

section \<open>The placeholder rewriter, as the specification words it\<close>

text \<open>
  These definitions follow the specification of the rewriter and are compared with
  \<open>replace_env_vars\<close> below. A reference is \<^verbatim>\<open>${\<close>, a non-empty text without a closing
  brace, and \<^verbatim>\<open>}\<close>. It carries a default when that text can be split as
  \<^verbatim>\<open>name:-default\<close> with both parts non-empty; when several splits are possible the
  name is the longest one (the split is at the last \<^verbatim>\<open>:-\<close> that has text after it).
\<close>

text \<open>The text up to the first closing brace, and the text after that brace.\<close>

definition braced :: "string \<Rightarrow> (string \<times> string) option" where
  "braced t =
     (case dropWhile (\<lambda>c. c \<noteq> CHR ''}'') t of
        [] \<Rightarrow> None
      | b # rest \<Rightarrow> Some (takeWhile (\<lambda>c. c \<noteq> CHR ''}'') t, rest))"

text \<open>The split of a text at its last \<^verbatim>\<open>:-\<close> that is followed by at least one character.\<close>

fun last_sep :: "string \<Rightarrow> (string \<times> string) option" where
  "last_sep [] = None"
| "last_sep (x # xs) =
     (case last_sep xs of
        Some (n, d) \<Rightarrow> Some (x # n, d)
      | None \<Rightarrow>
          (case xs of
             y # d \<Rightarrow> if x = CHR '':'' \<and> y = CHR ''-'' \<and> d \<noteq> [] then Some ([], d) else None
           | [] \<Rightarrow> None))"

definition split_default :: "string \<Rightarrow> (string \<times> string) option" where
  "split_default inner =
     (case inner of
        [] \<Rightarrow> None
      | x # xs \<Rightarrow> (case last_sep xs of Some (n, d) \<Rightarrow> Some (x # n, d) | None \<Rightarrow> None))"

text \<open>A bare or defaulted reference at the start of a text: its inner text and the text
  after it.\<close>

definition reference :: "string \<Rightarrow> (string \<times> string) option" where
  "reference s =
     (case s of
        a # b # t \<Rightarrow>
          if a = CHR ''$'' \<and> b = CHR ''{''
          then (case braced t of
                  Some (inner, rest) \<Rightarrow> if inner \<noteq> [] then Some (inner, rest) else None
                | None \<Rightarrow> None)
          else None
      | _ \<Rightarrow> None)"

text \<open>
  The rewriter of the specification: a reference with a default becomes the normalized
  reference to its name when the name is in the table and its default otherwise; a bare
  reference stays a normalized reference; every other character is copied.
\<close>

function rewrite_spec :: "variables \<Rightarrow> string \<Rightarrow> string" where
  "rewrite_spec vars [] = []"
| "rewrite_spec vars (c # t) =
     (case reference (c # t) of
        Some (inner, rest) \<Rightarrow>
          (case split_default inner of
             Some (var_name, dflt) \<Rightarrow>
               (if has_key var_name vars then ref_to var_name else dflt) @ rewrite_spec vars rest
           | None \<Rightarrow> ref_to inner @ rewrite_spec vars rest)
      | None \<Rightarrow> c # rewrite_spec vars t)"
  by pat_completeness auto
termination
proof -
  have shorter: "length rest < length s" if "reference s = Some (inner, rest)"
    for s inner rest
  proof -
    from that obtain t b where s: "s = CHR ''$'' # CHR ''{'' # t"
      and d: "dropWhile (\<lambda>c. c \<noteq> CHR ''}'') t = b # rest"
      by (auto simp: reference_def braced_def split: list.splits if_splits option.splits)
    have "length (dropWhile (\<lambda>c. c \<noteq> CHR ''}'') t) \<le> length t"
      by (rule length_dropWhile_le)
    with d s show ?thesis by simp
  qed
  show ?thesis
    by (relation "measure (\<lambda>p. length (snd p))") (auto dest: shorter)
qed

text \<open>
  Texts built from pieces: plain text, bare references and references with a default. A
  word is a non-empty text without \<^verbatim>\<open>$\<close>, without \<^verbatim>\<open>}\<close> and without \<^verbatim>\<open>:-\<close>.
\<close>

datatype piece = Plain string | Ref string | RefDefault string string

fun render_piece :: "piece \<Rightarrow> string" where
  "render_piece (Plain t) = t"
| "render_piece (Ref n) = ''${'' @ n @ ''}''"
| "render_piece (RefDefault n d) = ''${'' @ n @ '':-'' @ d @ ''}''"

definition render :: "piece list \<Rightarrow> string" where
  "render ps = concat (map render_piece ps)"

fun has_sep :: "string \<Rightarrow> bool" where
  "has_sep (a # b # t) = ((a = CHR '':'' \<and> b = CHR ''-'') \<or> has_sep (b # t))"
| "has_sep _ = False"

definition word :: "string \<Rightarrow> bool" where
  "word w = (w \<noteq> [] \<and> CHR ''$'' \<notin> set w \<and> CHR ''}'' \<notin> set w \<and> \<not> has_sep w)"

fun simple_piece :: "piece \<Rightarrow> bool" where
  "simple_piece (Plain t) = (CHR ''$'' \<notin> set t)"
| "simple_piece (Ref n) = word n"
| "simple_piece (RefDefault n d) = (word n \<and> word d)"

text \<open>What the rewriter makes of one piece.\<close>

fun resolve :: "variables \<Rightarrow> piece \<Rightarrow> piece" where
  "resolve vars (Plain t) = Plain t"
| "resolve vars (Ref n) = Ref n"
| "resolve vars (RefDefault n d) = (if has_key n vars then Ref n else Plain d)"

text \<open>
  Two auxiliary functions for the proofs about the pattern with a default. \<open>tail_result\<close>
  is what the part of the pattern after the first group (\<^verbatim>\<open>:-\<close>, the second group and
  the closing brace) gives at a position, when the first group has captured \<open>g1\<close>;
  \<open>greedy_result\<close> is what the greedy first group ends with after backtracking, when
  \<open>pre\<close> has already been taken into the group.
\<close>

definition tail_result :: "string list \<Rightarrow> string \<Rightarrow> string \<Rightarrow> mstate option" where
  "tail_result gs s g1 =
     (case s of
        c1 # c2 # u \<Rightarrow>
          if c1 = CHR '':'' \<and> c2 = CHR ''-''
          then (case braced u of
                  Some (inner, rest) \<Rightarrow>
                    if inner \<noteq> [] then Some (rest, (gs @ [g1]) @ [inner]) else None
                | None \<Rightarrow> None)
          else None
      | _ \<Rightarrow> None)"

definition greedy_result :: "string list \<Rightarrow> string \<Rightarrow> string \<Rightarrow> mstate option" where
  "greedy_result gs pre s =
     (case braced s of
        None \<Rightarrow> None
      | Some (inner, rest) \<Rightarrow>
          (case last_sep inner of
             Some (n, d) \<Rightarrow> Some (rest, gs @ [pre @ n, d])
           | None \<Rightarrow> None))"

section \<open>Variable discovery\<close>

text \<open>
  Claim C1. Scanning a string for placeholders is meant to collect the names only, with any
  \<^verbatim>\<open>:-default\<close> clause ignored: \<^verbatim>\<open>${FOO:-bar}\<close> should give \<open>FOO\<close>. The pattern
  of \<open>_find_env_vars\<close> has an optional group for the default clause, but the greedy
  \<^verbatim>\<open>[^}]+\<close> before it already takes everything up to the closing brace, so the group
  always matches the empty string: on \<^verbatim>\<open>${FOO:-bar}\<close> the function returns the one name
  \<^verbatim>\<open>FOO:-bar\<close>, and \<open>FOO\<close> is not among the names found.
\<close>

theorem find_env_vars_keeps_default_clause:
  "find_env_vars ''${FOO:-bar}'' = [''FOO:-bar''] \<and> ''FOO'' \<notin> set (find_env_vars ''${FOO:-bar}'')"
  by (simp add: find_env_vars_def pat_find_def seqs_def match_at_def)

section \<open>Published ports\<close>

text \<open>
  Claim C4. A port given as host:container without a bind address is rendered with the
  loopback address in front, and a port that already has a bind address should be rendered
  unchanged. The code recognises only the two addresses \<^verbatim>\<open>127.0.0.1\<close> and
  \<^verbatim>\<open>0.0.0.0\<close> as bind addresses: \<^verbatim>\<open>8080:80\<close> becomes \<^verbatim>\<open>127.0.0.1:8080:80\<close> and
  \<^verbatim>\<open>0.0.0.0:8080:80\<close> stays as it is, but \<^verbatim>\<open>192.168.1.1:8080:80\<close> gets a second
  address in front.
\<close>

theorem render_port_other_bind_address:
  "render_port (YStr ''192.168.1.1:8080:80'') = ''127.0.0.1:192.168.1.1:8080:80''
   \<and> render_port (YStr ''8080:80'') = ''127.0.0.1:8080:80''
   \<and> render_port (YStr ''0.0.0.0:8080:80'') = ''0.0.0.0:8080:80''"
  by (simp add: render_port_def)

section \<open>Volume resolution\<close>

lemma update_fresh: "k \<notin> fst ` set al \<Longrightarrow> AList.update k v al = al @ [(k, v)]"
  by (induction al) auto

lemma process_volumes_loop_fresh:
  "distinct (map fst decls) \<Longrightarrow> fst ` set decls \<inter> fst ` set table = {} \<Longrightarrow>
   process_volumes_loop decls table
     = table @ map (\<lambda>kv. (fst kv, volume_target (fst kv) (snd kv))) decls"
proof (induction decls arbitrary: table)
  case Nil
  then show ?case by simp
next
  case (Cons a decls)
  obtain n cfg where a: "a = (n, cfg)" by (cases a)
  from Cons.prems have fresh: "n \<notin> fst ` set table" and d: "distinct (map fst decls)"
    and nd: "n \<notin> fst ` set decls"
    and disj: "fst ` set decls \<inter> fst ` set table = {}"
    by (auto simp: a)
  have "fst ` set decls \<inter> fst ` set (table @ [(n, volume_target n cfg)]) = {}"
    using disj nd by auto
  from Cons.IH[OF d this] show ?case
    by (simp add: a update_fresh[OF fresh])
qed

text \<open>
  Claim C6. For the top-level volume declarations of a document (a mapping, so with distinct
  names) and any project name, \<open>_process_volumes\<close> run on a fresh converter maps every
  volume marked external (its declaration is a mapping whose \<open>external\<close> attribute is true
  in Python's sense) to its own name, and every other declared volume to
  \<^verbatim>\<open>${STACK_PATH}/\<close> followed by its name, one entry per declaration in the order of
  the declarations. An empty mapping gives the empty table, and so does a document without
  a \<open>volumes\<close> key, for which \<open>convert\<close> passes the empty mapping; no error is raised.
\<close>

theorem process_volumes_table:
  assumes "distinct (map fst decls)"
  shows "process_volumes (YDict decls) project_name init
           = Inr (init\<lparr>volumes := map (\<lambda>kv. (fst kv,
                 if (\<exists>d. snd kv = YDict d \<and> truthy (dict_get d ''external'' YNull))
                 then fst kv else ''${STACK_PATH}/'' @ fst kv)) decls\<rparr>)
         \<and> process_volumes (YDict []) project_name init = Inr init
         \<and> (''volumes'' \<notin> fst ` set doc \<longrightarrow>
              and_then (py_get (YDict doc) ''volumes'' (YDict []))
                (\<lambda>vols. process_volumes vols project_name init) = Inr init)"
proof -
  have tgt: "\<And>n cfg. volume_target n cfg
      = (if (\<exists>d. cfg = YDict d \<and> truthy (dict_get d ''external'' YNull))
         then n else ''${STACK_PATH}/'' @ n)"
    by (auto simp: volume_target_def split: yaml.splits)
  have "process_volumes_loop decls []
      = map (\<lambda>kv. (fst kv, volume_target (fst kv) (snd kv))) decls"
    using process_volumes_loop_fresh[OF assms, of "[]"] by simp
  then have a: "process_volumes (YDict decls) project_name init
           = Inr (init\<lparr>volumes := map (\<lambda>kv. (fst kv,
                 if (\<exists>d. snd kv = YDict d \<and> truthy (dict_get d ''external'' YNull))
                 then fst kv else ''${STACK_PATH}/'' @ fst kv)) decls\<rparr>)"
    by (simp add: process_volumes_def py_items_def and_then_def init_def tgt)
  have b: "process_volumes (YDict []) project_name init = Inr init"
    by (simp add: process_volumes_def py_items_def and_then_def init_def)
  have c: "''volumes'' \<notin> fst ` set doc \<longrightarrow>
              and_then (py_get (YDict doc) ''volumes'' (YDict []))
                (\<lambda>vols. process_volumes vols project_name init) = Inr init"
  proof
    assume "''volumes'' \<notin> fst ` set doc"
    then have "map_of doc ''volumes'' = None" by (simp add: map_of_eq_None_iff)
    then show "and_then (py_get (YDict doc) ''volumes'' (YDict []))
                (\<lambda>vols. process_volumes vols project_name init) = Inr init"
      by (simp add: py_get_def dict_get_def and_then_def b)
  qed
  from a b c show ?thesis by blast
qed

theorem process_volumes_table_witness:
  "process_volumes (YDict [(''data'', YNull), (''shared'', YDict [(''external'', YBool True)])])
      (YStr ''proj'') init
    = Inr (init\<lparr>volumes := [(''data'', ''${STACK_PATH}/data''), (''shared'', ''shared'')]\<rparr>)"
  using process_volumes_table
    [of "[(''data'', YNull), (''shared'', YDict [(''external'', YBool True)])]" "YStr ''proj''" "[]"]
  by (simp add: dict_get_def)

section \<open>Dependency extraction\<close>

lemma extract_dependencies_loop_fresh:
  "distinct (map fst services) \<Longrightarrow> fst ` set services \<inter> fst ` set acc = {} \<Longrightarrow>
   \<forall>kv \<in> set services. \<exists>d. snd kv = YDict d \<Longrightarrow>
   extract_dependencies_loop services acc
     = Inr (acc @ map (\<lambda>kv. (fst kv,
          case dict_get (case snd kv of YDict d \<Rightarrow> d | _ \<Rightarrow> []) ''depends_on'' (YList []) of
            YDict m \<Rightarrow> map (\<lambda>kv. YStr (fst kv)) m
          | YList xs \<Rightarrow> xs
          | _ \<Rightarrow> [])) services)"
proof (induction services arbitrary: acc)
  case Nil
  then show ?case by simp
next
  case (Cons a services)
  obtain n cfg where a: "a = (n, cfg)" by (cases a)
  from Cons.prems obtain d where cfg: "cfg = YDict d" by (auto simp: a)
  from Cons.prems have fresh: "n \<notin> fst ` set acc" and dist: "distinct (map fst services)"
    and nd: "n \<notin> fst ` set services"
    and disj: "fst ` set services \<inter> fst ` set acc = {}"
    and rest: "\<forall>kv \<in> set services. \<exists>d. snd kv = YDict d"
    by (auto simp: a)
  define deps where "deps = (case dict_get d ''depends_on'' (YList []) of
            YDict m \<Rightarrow> map (\<lambda>kv. YStr (fst kv)) m
          | YList xs \<Rightarrow> xs
          | _ \<Rightarrow> [])"
  have sd: "service_deps (YDict d) = Inr deps"
    by (simp add: service_deps_def py_get_def and_then_def deps_def)
  have "fst ` set services \<inter> fst ` set (acc @ [(n, deps)]) = {}"
    using disj nd by auto
  from Cons.IH[OF dist this rest] show ?case
    by (simp add: a sd and_then_def update_fresh[OF fresh] cfg deps_def)
qed

text \<open>
  Claim C7. For a services mapping (distinct names, every service itself a mapping, as
  \<open>_extract_variables\<close> has already required by the time \<open>convert\<close> calls
  \<open>_extract_dependencies\<close>), dependency extraction succeeds and returns exactly one entry
  per service, in the order of the services: the keys of \<open>depends_on\<close> when it is a
  mapping, the list itself when it is a list, and the empty list when the field is absent
  or has any other shape.
\<close>

theorem extract_dependencies_entries:
  assumes "distinct (map fst services)"
    and "\<forall>kv \<in> set services. \<exists>d. snd kv = YDict d"
  shows "\<exists>table. extract_dependencies (YDict services) = Inr table
           \<and> map fst table = map fst services
           \<and> (\<forall>n d. (n, YDict d) \<in> set services \<longrightarrow>
                map_of table n = Some
                  (case map_of d ''depends_on'' of
                     Some (YDict m) \<Rightarrow> map (\<lambda>kv. YStr (fst kv)) m
                   | Some (YList xs) \<Rightarrow> xs
                   | _ \<Rightarrow> []))"
proof -
  let ?f = "\<lambda>kv. (fst kv,
          case dict_get (case snd kv of YDict d \<Rightarrow> d | _ \<Rightarrow> []) ''depends_on'' (YList []) of
            YDict m \<Rightarrow> map (\<lambda>kv. YStr (fst kv)) m
          | YList xs \<Rightarrow> xs
          | _ \<Rightarrow> [])"
  let ?table = "map ?f services"
  have run: "extract_dependencies (YDict services) = Inr ?table"
    using extract_dependencies_loop_fresh[OF assms(1) _ assms(2), of "[]"]
    by (simp add: extract_dependencies_def py_items_def and_then_def)
  have keys: "map fst ?table = map fst services" by (simp add: comp_def)
  have look: "map_of ?table n = Some
                  (case map_of d ''depends_on'' of
                     Some (YDict m) \<Rightarrow> map (\<lambda>kv. YStr (fst kv)) m
                   | Some (YList xs) \<Rightarrow> xs
                   | _ \<Rightarrow> [])" if "(n, YDict d) \<in> set services" for n d
  proof -
    have dist: "distinct (map fst ?table)" using assms(1) by (simp add: comp_def)
    have "(n, snd (?f (n, YDict d))) \<in> set ?table" using that by force
    then have "map_of ?table n = Some (snd (?f (n, YDict d)))"
      using map_of_is_SomeI[OF dist] by blast
    then show ?thesis
      by (simp add: dict_get_def split: option.splits yaml.splits)
  qed
  from run keys look show ?thesis by blast
qed

theorem extract_dependencies_entries_witness:
  "\<exists>table. extract_dependencies (YDict
       [(''web'', YDict [(''depends_on'', YDict [(''a'', YNull), (''b'', YNull)])]),
        (''api'', YDict [(''depends_on'', YList [YStr ''a'', YStr ''b''])]),
        (''db'', YDict [])]) = Inr table
     \<and> map fst table = [''web'', ''api'', ''db'']
     \<and> map_of table ''web'' = Some [YStr ''a'', YStr ''b'']
     \<and> map_of table ''api'' = Some [YStr ''a'', YStr ''b'']
     \<and> map_of table ''db'' = Some []"
  using extract_dependencies_entries
    [of "[(''web'', YDict [(''depends_on'', YDict [(''a'', YNull), (''b'', YNull)])]),
          (''api'', YDict [(''depends_on'', YList [YStr ''a'', YStr ''b''])]),
          (''db'', YDict [])]"]
  by auto

section \<open>The Variable Table\<close>










section \<open>Failing runs\<close>



section \<open>Environment values\<close>

text \<open>
  Claim C10. For a service whose \<open>environment\<close> is a (non-empty) mapping, the block has one
  line per entry, with the value between double quotes: a string value after placeholder
  rewriting, any other value as Python's \<open>str\<close> gives it and without rewriting, so
  \<open>true\<close> is written \<^verbatim>\<open>"True"\<close>, a null value \<^verbatim>\<open>"None"\<close> and an integer in decimal.
\<close>

theorem environment_values:
  "(map_of cfg ''environment'' = Some (YDict d) \<and> d \<noteq> [] \<longrightarrow>
      environment_block self (YDict cfg)
        = Inr ([''            environments = {'']
               @ map (\<lambda>kv. ''              '' @ fst kv @ '' = '' @ dq
                        @ (case snd kv of YStr s \<Rightarrow> replace_env_vars (variables self) s
                           | v \<Rightarrow> py_str v) @ dq @ '';'') d
               @ [''            };'']))
   \<and> py_str (YBool True) = ''True''
   \<and> py_str (YBool False) = ''False''
   \<and> py_str YNull = ''None''
   \<and> py_str (YInt i) = show_int i"
  by (auto simp: environment_block_def py_get_def dict_get_def and_then_def
        render_env_value_def py_str_def split: yaml.splits)

theorem environment_values_witness:
  "environment_block init
     (YDict [(''environment'', YDict [(''DEBUG'', YBool True), (''EMPTY'', YNull),
                                      (''PORT'', YInt 8080), (''TAG'', YStr ''${TAG:-latest}'')])])
   = Inr [''            environments = {'',
          ''              DEBUG = '' @ dq @ ''True'' @ dq @ '';'',
          ''              EMPTY = '' @ dq @ ''None'' @ dq @ '';'',
          ''              PORT = '' @ dq @ ''8080'' @ dq @ '';'',
          ''              TAG = '' @ dq @ ''latest'' @ dq @ '';'',
          ''            };'']"
proof -
  have r: "replace_env_vars [] ''${TAG:-latest}'' = ''latest''"
    by (simp add: replace_env_vars_def pat_default_def pat_bare_def seqs_def match_at_def
          replace_var_def ref_to_def has_key_def)
  have n: "show_int 8080 = ''8080''"
    by (simp add: show_int_def show_nat.simps digit_char_def)
  show ?thesis
    using environment_values
      [of "[(''environment'', YDict [(''DEBUG'', YBool True), (''EMPTY'', YNull),
                                      (''PORT'', YInt 8080), (''TAG'', YStr ''${TAG:-latest}'')])]"
          "[(''DEBUG'', YBool True), (''EMPTY'', YNull),
            (''PORT'', YInt 8080), (''TAG'', YStr ''${TAG:-latest}'')]" init]
    by (simp add: init_def r n py_str_def)
qed

section \<open>Volume mounts\<close>

lemma split_on_length: "length (split_on c s) = Suc (count_list s c)"
  by (induction s) (auto split: list.splits)

lemma split_on_nonempty: "split_on c s \<noteq> []"
  by (induction s) (auto split: list.splits)

lemma split_on_hd: "hd (split_on c s) = takeWhile (\<lambda>x. x \<noteq> c) s"
  by (induction s) (auto split: list.splits simp: split_on_nonempty)

lemma count_list_0: "count_list s c = 0 \<longleftrightarrow> c \<notin> set s"
  by (induction s) auto

lemma add_z_eq:
  "add_z w = (if count_list w CHR '':'' = 1
       \<and> \<not> prefix ''/dev'' (takeWhile (\<lambda>c. c \<noteq> CHR '':'') w)
       \<and> \<not> prefix ''/etc'' (takeWhile (\<lambda>c. c \<noteq> CHR '':'') w)
       \<and> \<not> suffix '':ro'' w \<and> \<not> suffix '':z'' w then w @ '':z'' else w)"
  using count_list_0[of w "CHR '':''"]
  by (auto simp: add_z_def Let_def split_on_length split_on_hd)

text \<open>
  Claim C5. For a mount given as a string, let \<open>w\<close> be the mount after the declared volume
  name has been replaced and the placeholders rewritten. The result is \<open>w\<close> with
  \<^verbatim>\<open>:z\<close> appended exactly when \<open>w\<close> has two colon-delimited parts (one colon), its
  source part (the text before the colon) starts neither with \<^verbatim>\<open>/dev\<close> nor with
  \<^verbatim>\<open>/etc\<close>, and \<open>w\<close> ends neither in \<^verbatim>\<open>:ro\<close> nor in \<^verbatim>\<open>:z\<close>; otherwise it
  is \<open>w\<close>. With \<open>data\<close> the one declared (managed) volume of project \<open>proj\<close>, the
  mount \<^verbatim>\<open>data:/var/lib/app\<close> becomes \<^verbatim>\<open>${STACK_PATH}/data:/var/lib/app:z\<close>,
  whatever the Variable Table holds.
\<close>

theorem convert_volume_relabel:
  "convert_volume self (YStr v)
     = Inr (let w = replace_env_vars (variables self) (subst_named_volume (volumes self) v)
            in if count_list w CHR '':'' = 1
                  \<and> \<not> prefix ''/dev'' (takeWhile (\<lambda>c. c \<noteq> CHR '':'') w)
                  \<and> \<not> prefix ''/etc'' (takeWhile (\<lambda>c. c \<noteq> CHR '':'') w)
                  \<and> \<not> suffix '':ro'' w \<and> \<not> suffix '':z'' w
               then w @ '':z'' else w)
   \<and> (process_volumes (YDict [(''data'', YNull)]) (YStr ''proj'') init = Inr self1
        \<and> volumes self2 = volumes self1 \<longrightarrow>
        convert_volume self2 (YStr ''data:/var/lib/app'')
          = Inr ''${STACK_PATH}/data:/var/lib/app:z'')"
proof -
  have a: "convert_volume self (YStr v)
     = Inr (let w = replace_env_vars (variables self) (subst_named_volume (volumes self) v)
            in if count_list w CHR '':'' = 1
                  \<and> \<not> prefix ''/dev'' (takeWhile (\<lambda>c. c \<noteq> CHR '':'') w)
                  \<and> \<not> prefix ''/etc'' (takeWhile (\<lambda>c. c \<noteq> CHR '':'') w)
                  \<and> \<not> suffix '':ro'' w \<and> \<not> suffix '':z'' w
               then w @ '':z'' else w)"
    by (simp add: convert_volume_def add_z_eq Let_def)
  have rw: "replace_env_vars vars ''${STACK_PATH}/data:/var/lib/app''
            = ''${STACK_PATH}/data:/var/lib/app''" for vars
    by (simp add: replace_env_vars_def pat_default_def pat_bare_def seqs_def match_at_def
          replace_var_def ref_to_def Let_def)
  have b: "process_volumes (YDict [(''data'', YNull)]) (YStr ''proj'') init = Inr self1
        \<and> volumes self2 = volumes self1 \<longrightarrow>
        convert_volume self2 (YStr ''data:/var/lib/app'')
          = Inr ''${STACK_PATH}/data:/var/lib/app:z''"
  proof
    assume h: "process_volumes (YDict [(''data'', YNull)]) (YStr ''proj'') init = Inr self1
        \<and> volumes self2 = volumes self1"
    then have "volumes self2 = [(''data'', ''${STACK_PATH}/data'')]"
      by (auto simp: process_volumes_def py_items_def and_then_def init_def volume_target_def)
    then show "convert_volume self2 (YStr ''data:/var/lib/app'')
          = Inr ''${STACK_PATH}/data:/var/lib/app:z''"
      by (simp add: convert_volume_def rw add_z_def suffix_def)
  qed
  from a b show ?thesis by blast
qed

theorem convert_volume_relabel_witness:
  "convert_volume (init\<lparr>volumes := [(''data'', ''${STACK_PATH}/data'')],
                        variables := [(''STACK_PATH'', ''x'')]\<rparr>) (YStr ''data:/var/lib/app'')
     = Inr ''${STACK_PATH}/data:/var/lib/app:z''"
proof -
  have p: "process_volumes (YDict [(''data'', YNull)]) (YStr ''proj'') init
      = Inr (init\<lparr>volumes := [(''data'', ''${STACK_PATH}/data'')]\<rparr>)"
    by (simp add: process_volumes_def py_items_def and_then_def init_def volume_target_def)
  show ?thesis
    using convert_volume_relabel
      [of "init" "[]" "init\<lparr>volumes := [(''data'', ''${STACK_PATH}/data'')]\<rparr>"
          "init\<lparr>volumes := [(''data'', ''${STACK_PATH}/data'')],
                        variables := [(''STACK_PATH'', ''x'')]\<rparr>"] p
    by (simp add: init_def)
qed

section \<open>What the three patterns match\<close>

lemma star_close:
  assumes "\<And>x r. x \<noteq> c \<Longrightarrow> k (x # r) = None"
  shows "star (Except c) k s = k (dropWhile (\<lambda>x. x \<noteq> c) s)"
proof (induction s)
  case Nil
  then show ?case by simp
next
  case (Cons x xs)
  then show ?case using assms by (auto split: option.splits)
qed

lemma take_length_dropWhile:
  "take (length xs - length (dropWhile P xs)) xs = takeWhile P xs"
proof -
  have "length xs - length (dropWhile P xs) = length (takeWhile P xs)"
    by (metis add_diff_cancel_right' length_append takeWhile_dropWhile_id)
  then show ?thesis
    by (metis append_eq_conv_conj takeWhile_dropWhile_id)
qed

lemma grp_plus_unfold:
  "rx_match (Grp (Plus (Except c))) K (y # ys, gs) =
     (if y \<noteq> c
      then star (Except c) (\<lambda>s'. K (s', gs @ [take (Suc (length ys) - length s') (y # ys)])) ys
      else None)"
  by (simp only: rx_match.simps(7) rx_match.simps(4) fst_conv snd_conv list.case in_cls.simps
        length_Cons)

lemma grp_plus_empty: "rx_match (Grp (Plus (Except c))) K ([], gs) = None"
  by (simp only: rx_match.simps(7) rx_match.simps(4) fst_conv snd_conv list.case)

lemma close_unfold:
  "rx_match (Seq (Ch (Only c)) Eps) k (s, gs) =
     (case s of [] \<Rightarrow> None | x # r \<Rightarrow> if x = c then k (r, gs) else None)"
  by (simp only: rx_match.simps(5) rx_match.simps(2) rx_match.simps(1) fst_conv snd_conv
        in_cls.simps)

text \<open>A group \<^verbatim>\<open>([^}]+)\<close> followed by the closing brace.\<close>

lemma group_then_close:
  "rx_match (Grp (Plus (Except CHR ''}''))) (rx_match (Seq (Ch (Only CHR ''}'')) Eps) k) (u, gs)
   = (case braced u of
        Some (inner, rest) \<Rightarrow> if inner \<noteq> [] then k (rest, gs @ [inner]) else None
      | None \<Rightarrow> None)"
proof (cases u)
  case Nil
  show ?thesis unfolding Nil grp_plus_empty by (simp add: braced_def)
next
  case (Cons y ys)
  let ?P = "\<lambda>x. x \<noteq> CHR ''}''"
  let ?K = "\<lambda>s'. case s' of [] \<Rightarrow> None
               | x # r \<Rightarrow> if x = CHR ''}''
                   then k (r, gs @ [take (Suc (length ys) - length s') (y # ys)]) else None"
  have st: "star (Except CHR ''}'') ?K ys = ?K (dropWhile ?P ys)"
    by (rule star_close) simp
  have len: "length (dropWhile ?P ys) \<le> length ys"
    by (rule length_dropWhile_le)
  have tk: "take (Suc (length ys) - length (dropWhile ?P ys)) (y # ys) = y # takeWhile ?P ys"
    using len take_length_dropWhile[of ys ?P]
    by (simp add: Suc_diff_le)
  show ?thesis
  proof (cases "y = CHR ''}''")
    case True
    show ?thesis unfolding Cons grp_plus_unfold using True by (simp add: braced_def)
  next
    case False
    show ?thesis
    proof (cases "dropWhile ?P ys")
      case Nil
      have f1: "rx_match (Grp (Plus (Except CHR ''}''))) (rx_match (Seq (Ch (Only CHR ''}'')) Eps) k)
              (y # ys, gs) = None"
        unfolding grp_plus_unfold close_unfold st Nil using False
        by (simp only: simp_thms if_True list.case)
      have f2: "braced (y # ys) = None"
        unfolding braced_def dropWhile.simps using False
        by (simp only: simp_thms if_True Nil list.case)
      show ?thesis by (simp only: \<open>u = y # ys\<close> f1 f2 option.case)
    next
      case (Cons b rest)
      have ne: "dropWhile ?P ys \<noteq> []"
        unfolding Cons by (rule list.distinct(2))
      have "\<not> ?P (hd (dropWhile ?P ys))"
        using ne by (rule hd_dropWhile)
      then have b: "b = CHR ''}''"
        unfolding Cons list.sel by (simp only: not_not)
      have tk': "take (Suc (length ys) - length (CHR ''}'' # rest)) (y # ys) = y # takeWhile ?P ys"
        using tk unfolding Cons b .
      have "rx_match (Grp (Plus (Except CHR ''}''))) (rx_match (Seq (Ch (Only CHR ''}'')) Eps) k)
              (y # ys, gs) = ?K (dropWhile ?P ys)"
        unfolding grp_plus_unfold close_unfold st using False
        by (simp only: simp_thms if_True)
      also have "\<dots> = k (rest, gs @ [y # takeWhile ?P ys])"
        unfolding Cons b by (simp only: list.case if_True simp_thms tk')
      finally have f1: "rx_match (Grp (Plus (Except CHR ''}''))) (rx_match (Seq (Ch (Only CHR ''}'')) Eps) k)
              (y # ys, gs) = k (rest, gs @ [y # takeWhile ?P ys])" .
      have f2: "braced (y # ys) = Some (y # takeWhile ?P ys, rest)"
        unfolding braced_def dropWhile.simps takeWhile.simps using False
        by (simp only: simp_thms if_True Cons list.case)
      show ?thesis
        by (simp only: \<open>u = y # ys\<close> f1 f2 option.case prod.case list.distinct simp_thms if_True)
    qed
  qed
qed

lemmas rx_basic = rx_match.simps(1) rx_match.simps(2) rx_match.simps(5)
  fst_conv snd_conv list.case in_cls.simps foldr.simps o_def id_def

lemma pat_bare_unfold:
  "rx_match pat_bare k (a # b # t, gs) =
     (if a = CHR ''$'' \<and> b = CHR ''{''
      then rx_match (Grp (Plus (Except CHR ''}''))) (rx_match (Seq (Ch (Only CHR ''}'')) Eps) k) (t, gs)
      else None)"
  unfolding pat_bare_def seqs_def
  by (cases "a = CHR ''$''"; cases "b = CHR ''{''"; simp only: rx_basic if_True if_False simp_thms)

lemma pat_bare_short:
  "rx_match pat_bare k ([], gs) = None" "rx_match pat_bare k ([a], gs) = None"
  unfolding pat_bare_def seqs_def
  by (cases "a = CHR ''$''"; simp only: rx_basic if_True if_False simp_thms)+

lemma match_at_pat_bare:
  "match_at pat_bare s =
     (case reference s of Some (inner, rest) \<Rightarrow> Some ([inner], rest) | None \<Rightarrow> None)"
proof (cases s)
  case Nil
  show ?thesis unfolding Nil match_at_def pat_bare_short reference_def
    by (simp only: list.case option.case)
next
  case outer: (Cons a s1)
  show ?thesis
  proof (cases s1)
    case Nil
    show ?thesis unfolding outer Nil match_at_def pat_bare_short reference_def
      by (simp only: list.case option.case)
  next
    case (Cons b t)
    show ?thesis
    proof (cases "a = CHR ''$'' \<and> b = CHR ''{''")
      case False
      then show ?thesis unfolding outer Cons match_at_def pat_bare_unfold reference_def
        by (simp only: list.case option.case if_False simp_thms)
    next
      case True
      show ?thesis
      proof (cases "braced t")
        case None
        show ?thesis unfolding outer Cons match_at_def pat_bare_unfold reference_def
            group_then_close using True
          by (simp only: None list.case option.case if_True simp_thms)
      next
        case (Some p)
        obtain inner rest where p: "p = (inner, rest)" by (cases p)
        show ?thesis unfolding outer Cons match_at_def pat_bare_unfold reference_def
            group_then_close using True
          by (cases "inner = []") (simp_all only: Some p list.case option.case prod.case if_True
                if_False simp_thms append_Nil)
      qed
    qed
  qed
qed

lemma braced_Nil: "braced [] = None"
  by (simp add: braced_def)

lemma braced_close: "braced (CHR ''}'' # xs) = Some ([], xs)"
  by (simp add: braced_def)

lemma braced_other:
  "x \<noteq> CHR ''}'' \<Longrightarrow>
   braced (x # xs) = (case braced xs of None \<Rightarrow> None | Some (inner, rest) \<Rightarrow> Some (x # inner, rest))"
  by (cases "dropWhile (\<lambda>c. c \<noteq> CHR ''}'') xs")
     (simp_all only: braced_def dropWhile.simps takeWhile.simps if_True list.case option.case
        prod.case simp_thms)

lemma default_tail_unfold:
  "rx_match (Seq (Ch (Only CHR '':'')) (Seq (Ch (Only CHR ''-''))
      (Seq (Grp (Plus (Except CHR ''}''))) (Seq (Ch (Only CHR ''}'')) Eps)))) k (s, gs)
   = (case s of
        c1 # c2 # u \<Rightarrow>
          if c1 = CHR '':'' \<and> c2 = CHR ''-''
          then (case braced u of
                  Some (inner, rest) \<Rightarrow> if inner \<noteq> [] then k (rest, gs @ [inner]) else None
                | None \<Rightarrow> None)
          else None
      | _ \<Rightarrow> None)"
proof (cases s)
  case Nil
  show ?thesis unfolding Nil by (simp only: rx_basic)
next
  case outer: (Cons c1 s1)
  show ?thesis
  proof (cases s1)
    case Nil
    show ?thesis unfolding outer Nil
      by (cases "c1 = CHR '':''"; simp only: rx_basic if_True if_False simp_thms)
  next
    case (Cons c2 u)
    show ?thesis unfolding outer Cons
      by (cases "c1 = CHR '':''"; cases "c2 = CHR ''-''";
          simp only: rx_basic if_True if_False simp_thms group_then_close)
  qed
qed

text \<open>The result of the default pattern's tail at a position, and the split the
  greedy first group ends with; one step of the backtracking relates them.\<close>

lemma default_step:
  shows "greedy_result gs pre [] = None" and "tail_result gs [] pre = None"
    and "greedy_result gs pre (CHR ''}'' # xs) = None"
    and "tail_result gs (CHR ''}'' # xs) pre = None"
    and "x \<noteq> CHR ''}'' \<Longrightarrow>
         greedy_result gs pre (x # xs)
           = (case greedy_result gs (pre @ [x]) xs of
                Some r \<Rightarrow> Some r
              | None \<Rightarrow> tail_result gs (x # xs) pre)"
proof -
  show "greedy_result gs pre [] = None" by (simp add: greedy_result_def braced_Nil)
  show "tail_result gs [] pre = None" by (simp add: tail_result_def)
  show "greedy_result gs pre (CHR ''}'' # xs) = None" by (simp add: greedy_result_def braced_close)
  show "tail_result gs (CHR ''}'' # xs) pre = None" by (cases xs) (simp_all add: tail_result_def)
  assume x: "x \<noteq> CHR ''}''"
  show "greedy_result gs pre (x # xs) = (case greedy_result gs (pre @ [x]) xs of Some r \<Rightarrow> Some r | None \<Rightarrow> tail_result gs (x # xs) pre)"
  proof (cases "braced xs")
    case None
    have s1: "greedy_result gs pre (x # xs) = None" by (simp add: greedy_result_def braced_other[OF x] None)
    have s2: "greedy_result gs (pre @ [x]) xs = None" by (simp add: greedy_result_def None)
    have t: "tail_result gs (x # xs) pre = None"
    proof (cases xs)
      case Nil
      then show ?thesis by (simp add: tail_result_def)
    next
      case (Cons c2 u)
      show ?thesis
      proof (cases "c2 = CHR ''-''")
        case True
        then have "c2 \<noteq> CHR ''}''" by simp
        from braced_other[OF this, of u] None Cons have "braced u = None"
          by (cases "braced u") auto
        then show ?thesis by (simp add: tail_result_def Cons)
      next
        case False
        then show ?thesis by (simp add: tail_result_def Cons)
      qed
    qed
    show ?thesis by (simp add: s1 s2 t)
  next
    case (Some p)
    obtain inner rest where p: "p = (inner, rest)" by (cases p)
    have bx: "braced (x # xs) = Some (x # inner, rest)"
      by (simp add: braced_other[OF x] Some p)
    show ?thesis
    proof (cases "last_sep inner")
      case (Some q)
      obtain n d where q: "q = (n, d)" by (cases q)
      have "greedy_result gs pre (x # xs) = Some (rest, gs @ [pre @ x # n, d])"
        by (simp add: greedy_result_def bx Some q)
      moreover have "greedy_result gs (pre @ [x]) xs = Some (rest, gs @ [pre @ x # n, d])"
        by (simp add: greedy_result_def \<open>braced xs = Some p\<close> p Some q)
      ultimately show ?thesis by simp
    next
      case None
      have s2: "greedy_result gs (pre @ [x]) xs = None"
        by (simp add: greedy_result_def \<open>braced xs = Some p\<close> p None)
      have s1: "greedy_result gs pre (x # xs) =
          (case inner of
             y # d \<Rightarrow> if x = CHR '':'' \<and> y = CHR ''-'' \<and> d \<noteq> []
                       then Some (rest, gs @ [pre, d]) else None
           | [] \<Rightarrow> None)"
        by (simp add: greedy_result_def bx None split: list.splits)
      have t: "tail_result gs (x # xs) pre =
          (case inner of
             y # d \<Rightarrow> if x = CHR '':'' \<and> y = CHR ''-'' \<and> d \<noteq> []
                       then Some (rest, gs @ [pre, d]) else None
           | [] \<Rightarrow> None)"
      proof (cases xs)
        case Nil
        with \<open>braced xs = Some p\<close> show ?thesis by (simp add: braced_Nil)
      next
        case (Cons c2 u)
        show ?thesis
        proof (cases "c2 = CHR ''}''")
          case True
          with \<open>braced xs = Some p\<close> p Cons have "inner = []" by (simp add: braced_close)
          then show ?thesis using True by (simp add: tail_result_def Cons)
        next
          case False
          from braced_other[OF False, of u] \<open>braced xs = Some p\<close> p Cons
          obtain i' where bu: "braced u = Some (i', rest)" and inner: "inner = c2 # i'"
            by (cases "braced u") auto
          show ?thesis by (simp add: tail_result_def Cons bu inner)
        qed
      qed
      show ?thesis by (simp add: s1 s2 t)
    qed
  qed
qed

lemma default_tail_is:
  "rx_match (Seq (Ch (Only CHR '':'')) (Seq (Ch (Only CHR ''-''))
      (Seq (Grp (Plus (Except CHR ''}''))) (Seq (Ch (Only CHR ''}'')) Eps)))) Some (s, gs @ [g1]) = tail_result gs s g1"
  by (simp only: default_tail_unfold tail_result_def)

lemma take_pre: "take (length pre + length s - length s) (pre @ s) = pre"
  by simp

lemma take_shift:
  "take (length pre + length (x # xs) - n) (pre @ x # xs)
   = take (length (pre @ [x]) + length xs - n) ((pre @ [x]) @ xs)"
  by simp

lemma star_default:
  "star (Except CHR ''}'')
     (\<lambda>s'. rx_match (Seq (Ch (Only CHR '':'')) (Seq (Ch (Only CHR ''-''))
      (Seq (Grp (Plus (Except CHR ''}''))) (Seq (Ch (Only CHR ''}'')) Eps)))) Some
             (s', gs @ [take (length pre + length s - length s') (pre @ s)])) s
   = greedy_result gs pre s"
proof (induction s arbitrary: pre)
  case Nil
  show ?case
    by (simp only: star.simps default_tail_is default_step)
next
  case (Cons x xs)
  let ?K = "\<lambda>s'. rx_match (Seq (Ch (Only CHR '':'')) (Seq (Ch (Only CHR ''-''))
      (Seq (Grp (Plus (Except CHR ''}''))) (Seq (Ch (Only CHR ''}'')) Eps)))) Some
             (s', gs @ [take (length pre + length (x # xs) - length s') (pre @ x # xs)])"
  have here: "?K (x # xs) = tail_result gs (x # xs) pre"
    by (simp only: take_pre default_tail_is)
  have below: "star (Except CHR ''}'') ?K xs = greedy_result gs (pre @ [x]) xs"
    using Cons.IH[of "pre @ [x]"] by (simp only: take_shift)
  show ?case
  proof (cases "x = CHR ''}''")
    case True
    have "star (Except CHR ''}'') ?K (x # xs) = ?K (x # xs)"
      using True by (simp only: star.simps in_cls.simps simp_thms if_False)
    then show ?thesis
      unfolding here using True by (simp only: default_step)
  next
    case False
    have "star (Except CHR ''}'') ?K (x # xs)
          = (case star (Except CHR ''}'') ?K xs of Some r \<Rightarrow> Some r | None \<Rightarrow> ?K (x # xs))"
      using False by (simp only: star.simps in_cls.simps simp_thms if_True)
    then show ?thesis
      unfolding here below by (simp only: default_step(5)[OF False])
  qed
qed

lemma pat_default_unfold:
  "rx_match pat_default k (a # b # t, gs) =
     (if a = CHR ''$'' \<and> b = CHR ''{''
      then rx_match (Grp (Plus (Except CHR ''}''))) (rx_match (Seq (Ch (Only CHR '':'')) (Seq (Ch (Only CHR ''-''))
      (Seq (Grp (Plus (Except CHR ''}''))) (Seq (Ch (Only CHR ''}'')) Eps)))) k) (t, gs)
      else None)"
  unfolding pat_default_def seqs_def
  by (cases "a = CHR ''$''"; cases "b = CHR ''{''"; simp only: rx_basic if_True if_False simp_thms)

lemma pat_default_short:
  "rx_match pat_default k ([], gs) = None" "rx_match pat_default k ([a], gs) = None"
  unfolding pat_default_def seqs_def
  by (cases "a = CHR ''$''"; simp only: rx_basic if_True if_False simp_thms)+

lemma take_one:
  "take (Suc (length ys) - n) (y # ys) = take (length [y] + length ys - n) ([y] @ ys)"
  by simp

lemma first_group_default:
  "rx_match (Grp (Plus (Except CHR ''}''))) (rx_match (Seq (Ch (Only CHR '':'')) (Seq (Ch (Only CHR ''-''))
      (Seq (Grp (Plus (Except CHR ''}''))) (Seq (Ch (Only CHR ''}'')) Eps)))) Some) (t, [])
   = (case t of [] \<Rightarrow> None
      | y # ys \<Rightarrow> if y \<noteq> CHR ''}'' then greedy_result [] [y] ys else None)"
proof (cases t)
  case Nil
  show ?thesis unfolding Nil by (simp only: grp_plus_empty list.case)
next
  case (Cons y ys)
  have "star (Except CHR ''}'')
          (\<lambda>s'. rx_match (Seq (Ch (Only CHR '':'')) (Seq (Ch (Only CHR ''-''))
      (Seq (Grp (Plus (Except CHR ''}''))) (Seq (Ch (Only CHR ''}'')) Eps)))) Some (s', [] @ [take (Suc (length ys) - length s') (y # ys)])) ys
        = greedy_result [] [y] ys"
    by (simp only: take_one star_default)
  then show ?thesis unfolding Cons grp_plus_unfold by (simp only: list.case)
qed

lemma greedy_result_reference:
  "(case (if y \<noteq> CHR ''}'' then greedy_result [] [y] ys else None) of
      None \<Rightarrow> None | Some (s', gs) \<Rightarrow> Some (gs, s'))
   = (case braced (y # ys) of
        Some (inner, rest) \<Rightarrow>
          if inner \<noteq> []
          then (case split_default inner of Some (n, d) \<Rightarrow> Some ([n, d], rest) | None \<Rightarrow> None)
          else None
      | None \<Rightarrow> None)"
proof (cases "y = CHR ''}''")
  case True
  then show ?thesis by (simp add: braced_close)
next
  case False
  show ?thesis
  proof (cases "braced ys")
    case None
    then show ?thesis using False by (simp add: braced_other greedy_result_def)
  next
    case (Some p)
    obtain i r where p: "p = (i, r)" by (cases p)
    show ?thesis
      using False Some p
      by (cases "last_sep i") (auto simp: braced_other greedy_result_def split_default_def)
  qed
qed

lemma match_at_pat_default:
  "match_at pat_default s =
     (case reference s of
        Some (inner, rest) \<Rightarrow>
          (case split_default inner of Some (n, d) \<Rightarrow> Some ([n, d], rest) | None \<Rightarrow> None)
      | None \<Rightarrow> None)"
proof (cases s)
  case Nil
  show ?thesis unfolding Nil match_at_def pat_default_short reference_def
    by (simp only: list.case option.case)
next
  case outer: (Cons a s1)
  show ?thesis
  proof (cases s1)
    case Nil
    show ?thesis unfolding outer Nil match_at_def pat_default_short reference_def
      by (simp only: list.case option.case)
  next
    case (Cons b t)
    show ?thesis
    proof (cases "a = CHR ''$'' \<and> b = CHR ''{''")
      case False
      then show ?thesis unfolding outer Cons match_at_def pat_default_unfold reference_def
        by (simp only: list.case option.case if_False simp_thms)
    next
      case True
      have m: "match_at pat_default (a # b # t)
          = (case rx_match (Grp (Plus (Except CHR ''}''))) (rx_match (Seq (Ch (Only CHR '':'')) (Seq (Ch (Only CHR ''-''))
      (Seq (Grp (Plus (Except CHR ''}''))) (Seq (Ch (Only CHR ''}'')) Eps)))) Some) (t, []) of
               None \<Rightarrow> None | Some (s', gs) \<Rightarrow> Some (gs, s'))"
        unfolding match_at_def pat_default_unfold using True by (simp only: if_True simp_thms)
      have r: "reference (a # b # t)
          = (case braced t of
               Some (inner, rest) \<Rightarrow> if inner \<noteq> [] then Some (inner, rest) else None
             | None \<Rightarrow> None)"
        unfolding reference_def using True by (simp only: list.case if_True simp_thms)
      have s: "s = a # b # t" by (simp only: outer Cons)
      show ?thesis
      proof (cases t)
        case Nil
        have "match_at pat_default (a # b # t) = None"
          by (subst m, subst first_group_default, subst Nil) (simp only: list.case option.case)
        moreover have "reference (a # b # t) = None"
          by (subst r, subst Nil, subst braced_Nil) (simp only: option.case)
        ultimately show ?thesis by (simp only: s option.case)
      next
        case inner: (Cons y ys)
        have "match_at pat_default (a # b # t)
            = (case (if y \<noteq> CHR ''}'' then greedy_result [] [y] ys else None) of
                 None \<Rightarrow> None | Some (s', gs) \<Rightarrow> Some (gs, s'))"
          by (subst m, subst first_group_default, subst inner) (simp only: list.case)
        also have "\<dots> = (case braced (y # ys) of
              Some (inner, rest) \<Rightarrow>
                if inner \<noteq> []
                then (case split_default inner of Some (n, d) \<Rightarrow> Some ([n, d], rest) | None \<Rightarrow> None)
                else None
            | None \<Rightarrow> None)"
          by (rule greedy_result_reference)
        also have "\<dots> = (case reference (a # b # t) of
              Some (inner, rest) \<Rightarrow>
                (case split_default inner of Some (n, d) \<Rightarrow> Some ([n, d], rest) | None \<Rightarrow> None)
            | None \<Rightarrow> None)"
          by (subst r, subst inner, cases "braced (y # ys)") auto
        finally show ?thesis by (simp only: s)
      qed
    qed
  qed
qed

section \<open>The placeholder rewriter\<close>

lemma braced_SomeD:
  "braced t = Some (inner, rest) \<Longrightarrow> t = inner @ CHR ''}'' # rest \<and> CHR ''}'' \<notin> set inner"
proof (induction t arbitrary: inner)
  case Nil
  then show ?case by (simp add: braced_Nil)
next
  case (Cons x xs)
  show ?case
  proof (cases "x = CHR ''}''")
    case True
    with Cons.prems show ?thesis by (simp add: braced_close)
  next
    case False
    from Cons.prems braced_other[OF False, of xs]
    obtain i where b: "braced xs = Some (i, rest)" and inner: "inner = x # i"
      by (cases "braced xs") auto
    from Cons.IH[OF b] show ?thesis using False inner by simp
  qed
qed

lemma braced_append:
  "CHR ''}'' \<notin> set w \<Longrightarrow> braced (w @ CHR ''}'' # rest) = Some (w, rest)"
proof (induction w)
  case Nil
  then show ?case by (simp add: braced_close)
next
  case (Cons a w)
  then have a: "a \<noteq> CHR ''}''" and w: "CHR ''}'' \<notin> set w" by auto
  show ?case using braced_other[OF a, of "w @ CHR ''}'' # rest"] Cons.IH[OF w] by simp
qed

lemma reference_SomeD:
  assumes "reference s = Some (inner, rest)"
  shows "s = CHR ''$'' # CHR ''{'' # inner @ CHR ''}'' # rest"
    and "inner \<noteq> []" and "CHR ''}'' \<notin> set inner"
proof -
  from assms obtain t where s: "s = CHR ''$'' # CHR ''{'' # t"
    and b: "braced t = Some (inner, rest)" and ne: "inner \<noteq> []"
    by (auto simp: reference_def split: list.splits if_splits option.splits)
  from braced_SomeD[OF b] s show "s = CHR ''$'' # CHR ''{'' # inner @ CHR ''}'' # rest"
    and "CHR ''}'' \<notin> set inner" by simp_all
  show "inner \<noteq> []" by (rule ne)
qed

lemma reference_shorter: "reference s = Some (inner, rest) \<Longrightarrow> length rest < length s"
  using reference_SomeD(1)[of s inner rest] by simp

lemma reference_not_dollar: "c \<noteq> CHR ''$'' \<Longrightarrow> reference (c # t) = None"
  by (simp add: reference_def split: list.splits)

lemma last_sep_suffix: "last_sep (a @ b) = None \<Longrightarrow> last_sep b = None"
proof (induction a)
  case Nil
  then show ?case by simp
next
  case (Cons x a)
  from Cons.prems have "last_sep (a @ b) = None"
    by (cases "last_sep (a @ b)") (auto simp del: last_sep.simps simp add: last_sep.simps(2)[of x "a @ b"])
  then show ?case by (rule Cons.IH)
qed

lemma last_sep_nonempty: "last_sep u = Some (n, d) \<Longrightarrow> d \<noteq> []"
proof (induction u arbitrary: n)
  case Nil
  then show ?case by simp
next
  case (Cons x u)
  show ?case
  proof (cases "last_sep u")
    case None
    have "last_sep (x # u) =
        (case u of
           y # d \<Rightarrow> if x = CHR '':'' \<and> y = CHR ''-'' \<and> d \<noteq> [] then Some ([], d) else None
         | [] \<Rightarrow> None)"
      by (simp only: last_sep.simps None option.case)
    with Cons.prems show ?thesis
      by (cases u) (auto simp del: last_sep.simps split: if_splits)
  next
    case (Some p)
    obtain n' d' where p: "p = (n', d')" by (cases p)
    have "last_sep (x # u) = Some (x # n', d')"
      by (simp only: last_sep.simps Some p option.case prod.case)
    with Cons.prems have "d = d'" by simp
    with Cons.IH[of n'] Some p show ?thesis by simp
  qed
qed

lemma split_default_nonempty: "split_default inner = Some (n, d) \<Longrightarrow> d \<noteq> []"
  by (auto simp: split_default_def split: list.splits option.splits dest: last_sep_nonempty)

lemma replace_var_two:
  "d \<noteq> [] \<Longrightarrow> replace_var vars [n, d] = (if has_key n vars then ref_to n else d)"
  by (simp add: replace_var_def)

lemma replace_var_one: "replace_var vars [n] = ref_to n"
  by (simp add: replace_var_def)

lemma re_sub_match:
  "match_at r (x # xs) = Some (gs, s') \<Longrightarrow> length s' < length (x # xs) \<Longrightarrow>
   re_sub r f (x # xs) = f gs @ re_sub r f s'"
  by (simp only: re_sub.simps option.case prod.case if_True)

lemma re_sub_no_match:
  "match_at r (x # xs) = None \<Longrightarrow> re_sub r f (x # xs) = x # re_sub r f xs"
  by (simp only: re_sub.simps option.case)

lemma re_sub_Nil_bare: "re_sub pat_bare f [] = []"
  by (simp only: re_sub.simps match_at_pat_bare reference_def list.case option.case)

lemma re_sub_Nil_default: "re_sub pat_default f [] = []"
  by (simp only: re_sub.simps match_at_pat_default reference_def list.case option.case)

text \<open>The second substitution of \<open>_replace_env_vars\<close> changes nothing: both branches of
  \<open>replace_var\<close> that a bare reference can reach write the reference back.\<close>

lemma re_sub_bare_id: "re_sub pat_bare (replace_var vars) s = s"
proof (induction s rule: length_induct)
  case (1 s)
  show ?case
  proof (cases s)
    case Nil
    then show ?thesis by (simp only: re_sub_Nil_bare)
  next
    case (Cons x xs)
    show ?thesis
    proof (cases "reference (x # xs)")
      case None
      then have "match_at pat_bare (x # xs) = None"
        by (simp only: match_at_pat_bare option.case)
      from re_sub_no_match[OF this] have "re_sub pat_bare (replace_var vars) (x # xs)
          = x # re_sub pat_bare (replace_var vars) xs" .
      moreover have "re_sub pat_bare (replace_var vars) xs = xs"
        using 1 Cons by simp
      ultimately show ?thesis using Cons by simp
    next
      case (Some p)
      obtain inner rest where p: "p = (inner, rest)" by (cases p)
      have m: "match_at pat_bare (x # xs) = Some ([inner], rest)"
        by (simp only: match_at_pat_bare Some p option.case prod.case)
      have len: "length rest < length (x # xs)"
        using reference_shorter Some p by blast
      have shape: "x # xs = ref_to inner @ rest"
        using reference_SomeD(1)[of "x # xs" inner rest] Some p by (simp add: ref_to_def)
      have "re_sub pat_bare (replace_var vars) rest = rest"
        using 1 len Cons by simp
      with re_sub_match[OF m len, of "replace_var vars"] show ?thesis
        using Cons shape by (simp add: replace_var_one)
    qed
  qed
qed

lemma first_close_unique:
  assumes "CHR ''}'' \<notin> set a" and "CHR ''}'' \<notin> set b"
    and "a @ CHR ''}'' # r = b @ CHR ''}'' # r'"
  shows "a = b \<and> r = r'"
proof -
  have "braced (a @ CHR ''}'' # r) = Some (a, r)" using assms(1) by (rule braced_append)
  moreover have "braced (b @ CHR ''}'' # r') = Some (b, r')" using assms(2) by (rule braced_append)
  moreover have "braced (a @ CHR ''}'' # r) = braced (b @ CHR ''}'' # r')"
    by (simp only: assms(3))
  ultimately have "Some (a, r) = Some (b, r')" by (simp only:)
  then show ?thesis by simp
qed

text \<open>Inside a bare reference no reference with a default starts.\<close>

lemma no_default_inside:
  "CHR ''}'' \<notin> set u \<Longrightarrow> last_sep (tl u) = None \<Longrightarrow>
   re_sub pat_default f (u @ CHR ''}'' # rest) = u @ CHR ''}'' # re_sub pat_default f rest"
proof (induction u)
  case Nil
  have "reference (CHR ''}'' # rest) = None" by (rule reference_not_dollar) simp
  then have "match_at pat_default (CHR ''}'' # rest) = None"
    by (simp only: match_at_pat_default option.case)
  from re_sub_no_match[OF this] show ?case by simp
next
  case (Cons x u)
  from Cons.prems have nb: "CHR ''}'' \<notin> set u" and ls: "last_sep u = None" by simp_all
  have lt: "last_sep (tl u) = None"
  proof (cases u)
    case Nil
    then show ?thesis by simp
  next
    case (Cons y w)
    with ls have "last_sep ([y] @ w) = None" by simp
    from last_sep_suffix[OF this] show ?thesis using Cons by simp
  qed
  have m: "match_at pat_default (x # u @ CHR ''}'' # rest) = None"
  proof (cases "reference (x # u @ CHR ''}'' # rest)")
    case None
    then show ?thesis by (simp only: match_at_pat_default option.case)
  next
    case (Some p)
    obtain inner' rest' where p: "p = (inner', rest')" by (cases p)
    from Some p have r: "reference (x # u @ CHR ''}'' # rest) = Some (inner', rest')" by simp
    from reference_SomeD[OF r]
    have eq: "x # u @ CHR ''}'' # rest = CHR ''$'' # CHR ''{'' # inner' @ CHR ''}'' # rest'"
      and ne: "inner' \<noteq> []" and nb': "CHR ''}'' \<notin> set inner'" by simp_all
    from eq have "u @ CHR ''}'' # rest = (CHR ''{'' # inner') @ CHR ''}'' # rest'" by simp
    with first_close_unique[OF nb, of "CHR ''{'' # inner'" rest rest'] nb'
    have u: "u = CHR ''{'' # inner'" by simp
    from ne obtain y w where inner': "inner' = y # w" by (cases inner') auto
    from ls u inner' have "last_sep ([CHR ''{'', y] @ w) = None" by simp
    from last_sep_suffix[OF this] have "last_sep w = None" .
    then have "split_default inner' = None" by (simp add: split_default_def inner')
    then show ?thesis by (simp only: match_at_pat_default r option.case prod.case)
  qed
  from re_sub_no_match[OF m, of f] Cons.IH[OF nb lt] show ?case by simp
qed

lemma re_sub_default_bare_ref:
  assumes "reference (c # t) = Some (inner, rest)" and "split_default inner = None"
  shows "re_sub pat_default f (c # t) = ref_to inner @ re_sub pat_default f rest"
proof -
  from reference_SomeD[OF assms(1)]
  have eq: "c # t = CHR ''$'' # CHR ''{'' # inner @ CHR ''}'' # rest"
    and ne: "inner \<noteq> []" and nb: "CHR ''}'' \<notin> set inner" by simp_all
  from ne obtain y w where inner: "inner = y # w" by (cases inner) auto
  from assms(2) have ls: "last_sep (tl inner) = None"
    by (cases "last_sep w") (auto simp: split_default_def inner)
  have m0: "match_at pat_default (c # t) = None"
    by (simp only: match_at_pat_default assms option.case prod.case)
  have "reference (CHR ''{'' # inner @ CHR ''}'' # rest) = None"
    by (rule reference_not_dollar) simp
  then have m1: "match_at pat_default (CHR ''{'' # inner @ CHR ''}'' # rest) = None"
    by (simp only: match_at_pat_default option.case)
  from eq have t: "t = CHR ''{'' # inner @ CHR ''}'' # rest" and c: "c = CHR ''$''" by simp_all
  have "re_sub pat_default f (c # t) = c # re_sub pat_default f t"
    using m0 by (rule re_sub_no_match)
  also have "re_sub pat_default f t
      = CHR ''{'' # re_sub pat_default f (inner @ CHR ''}'' # rest)"
    unfolding t using m1 by (rule re_sub_no_match)
  also have "re_sub pat_default f (inner @ CHR ''}'' # rest)
      = inner @ CHR ''}'' # re_sub pat_default f rest"
    using nb ls by (rule no_default_inside)
  finally show ?thesis by (simp add: c ref_to_def)
qed

lemma re_sub_default_spec: "re_sub pat_default (replace_var vars) s = rewrite_spec vars s"
proof (induction s rule: length_induct)
  case (1 s)
  show ?case
  proof (cases s)
    case Nil
    then show ?thesis by (simp only: re_sub_Nil_default rewrite_spec.simps)
  next
    case (Cons c t)
    have IH: "re_sub pat_default (replace_var vars) u = rewrite_spec vars u"
      if "length u < length (c # t)" for u
      using 1 that Cons by simp
    show ?thesis
    proof (cases "reference (c # t)")
      case None
      then have "match_at pat_default (c # t) = None"
        by (simp only: match_at_pat_default option.case)
      from re_sub_no_match[OF this, of "replace_var vars"] IH[of t] None
      show ?thesis unfolding Cons by (simp del: re_sub.simps)
    next
      case (Some p)
      obtain inner rest where p: "p = (inner, rest)" by (cases p)
      from Some p have r: "reference (c # t) = Some (inner, rest)" by simp
      have len: "length rest < length (c # t)" using r by (rule reference_shorter)
      show ?thesis
      proof (cases "split_default inner")
        case None
        from re_sub_default_bare_ref[OF r None, of "replace_var vars"] IH[OF len] r None
        show ?thesis unfolding Cons by (simp del: re_sub.simps)
      next
        case (Some q)
        obtain n d where q: "q = (n, d)" by (cases q)
        from Some q have sd: "split_default inner = Some (n, d)" by simp
        have m: "match_at pat_default (c # t) = Some ([n, d], rest)"
          by (simp only: match_at_pat_default r sd option.case prod.case)
        from re_sub_match[OF m len, of "replace_var vars"] IH[OF len] r sd
          replace_var_two[OF split_default_nonempty[OF sd], of vars n]
        show ?thesis unfolding Cons by (simp del: re_sub.simps)
      qed
    qed
  qed
qed

lemma replace_env_vars_rewrite_spec: "replace_env_vars vars s = rewrite_spec vars s"
  by (simp only: replace_env_vars_def Let_def re_sub_bare_id re_sub_default_spec)



section \<open>Rewriting twice\<close>

lemma no_sep_last_sep: "\<not> has_sep w \<Longrightarrow> last_sep w = None"
proof (induction w)
  case Nil
  then show ?case by simp
next
  case (Cons x w)
  have ih: "last_sep w = None"
  proof (cases w)
    case Nil
    then show ?thesis by simp
  next
    case c: (Cons y v)
    with Cons.prems have "\<not> has_sep w" by simp
    then show ?thesis by (rule Cons.IH)
  qed
  have "last_sep (x # w) =
        (case w of
           y # d \<Rightarrow> if x = CHR '':'' \<and> y = CHR ''-'' \<and> d \<noteq> [] then Some ([], d) else None
         | [] \<Rightarrow> None)"
    by (simp only: last_sep.simps ih option.case)
  with Cons.prems show ?case
    by (cases w) (auto simp del: last_sep.simps)
qed

lemma no_sep_tl: "\<not> has_sep w \<Longrightarrow> \<not> has_sep (tl w)"
proof (cases w)
  case Nil
  then show ?thesis by simp
next
  case a: (Cons x v)
  show "\<not> has_sep w \<Longrightarrow> \<not> has_sep (tl w)"
    by (cases v) (simp_all add: a)
qed

lemma last_sep_dash: "last_sep d = None \<Longrightarrow> last_sep (CHR ''-'' # d) = None"
  by (cases d) (simp_all only: last_sep.simps option.case list.case, simp_all)

lemma last_sep_at_sep:
  "d \<noteq> [] \<Longrightarrow> last_sep d = None \<Longrightarrow> last_sep (n @ '':-'' @ d) = Some (n, d)"
proof (induction n)
  case Nil
  have "last_sep (CHR '':'' # CHR ''-'' # d) =
      (case last_sep (CHR ''-'' # d) of
         Some (n, d') \<Rightarrow> Some (CHR '':'' # n, d')
       | None \<Rightarrow> (if d \<noteq> [] then Some ([], d) else None))"
    by (simp only: last_sep.simps(2)[of "CHR '':''" "CHR ''-'' # d"] list.case simp_thms)
  with last_sep_dash[OF Nil(2)] Nil(1) show ?case by (simp del: last_sep.simps)
next
  case (Cons x n)
  from Cons.IH[OF Cons.prems] have ih: "last_sep (n @ '':-'' @ d) = Some (n, d)" .
  have "last_sep (x # (n @ '':-'' @ d)) = Some (x # n, d)"
    by (simp only: last_sep.simps(2)[of x "n @ '':-'' @ d"] ih option.case prod.case)
  then show ?case by (simp del: last_sep.simps)
qed

lemma rewrite_spec_copy:
  "reference (c # t) = None \<Longrightarrow> rewrite_spec vars (c # t) = c # rewrite_spec vars t"
  by (simp only: rewrite_spec.simps option.case)

lemma rewrite_spec_default:
  "reference (c # t) = Some (inner, rest) \<Longrightarrow> split_default inner = Some (n, d) \<Longrightarrow>
   rewrite_spec vars (c # t) = (if has_key n vars then ref_to n else d) @ rewrite_spec vars rest"
  by (simp only: rewrite_spec.simps option.case prod.case)

lemma rewrite_spec_bare:
  "reference (c # t) = Some (inner, rest) \<Longrightarrow> split_default inner = None \<Longrightarrow>
   rewrite_spec vars (c # t) = ref_to inner @ rewrite_spec vars rest"
  by (simp only: rewrite_spec.simps option.case prod.case)

lemma reference_at:
  assumes "inner \<noteq> []" and "CHR ''}'' \<notin> set inner"
  shows "reference (CHR ''$'' # CHR ''{'' # inner @ CHR ''}'' # s) = Some (inner, s)"
  using assms braced_append[OF assms(2), of s] by (simp add: reference_def)

lemma plain_step:
  "CHR ''$'' \<notin> set t \<Longrightarrow> rewrite_spec vars (t @ s) = t @ rewrite_spec vars s"
proof (induction t)
  case Nil
  then show ?case by simp
next
  case (Cons c t)
  then have c: "c \<noteq> CHR ''$''" and t: "CHR ''$'' \<notin> set t" by auto
  have "reference (c # t @ s) = None" using c by (rule reference_not_dollar)
  from rewrite_spec_copy[OF this, of vars] Cons.IH[OF t] show ?case
    by (simp del: rewrite_spec.simps)
qed

lemma ref_step:
  assumes "word n"
  shows "rewrite_spec vars (render_piece (Ref n) @ s) = render_piece (Ref n) @ rewrite_spec vars s"
proof -
  from assms have ne: "n \<noteq> []" and nb: "CHR ''}'' \<notin> set n" and ns: "\<not> has_sep n"
    by (simp_all add: word_def)
  from ne obtain y w where n: "n = y # w" by (cases n) auto
  have "last_sep w = None" using no_sep_last_sep[OF no_sep_tl[OF ns]] n by simp
  then have sd: "split_default n = None" by (simp add: split_default_def n)
  have r: "reference (CHR ''$'' # CHR ''{'' # n @ CHR ''}'' # s) = Some (n, s)"
    using ne nb by (rule reference_at)
  from rewrite_spec_bare[OF r sd, of vars] show ?thesis
    by (simp add: ref_to_def del: rewrite_spec.simps)
qed

lemma ref_default_step:
  assumes "word n" and "word d"
  shows "rewrite_spec vars (render_piece (RefDefault n d) @ s)
         = render_piece (resolve vars (RefDefault n d)) @ rewrite_spec vars s"
proof -
  from assms have ne: "n \<noteq> []" and nb: "CHR ''}'' \<notin> set n"
    and de: "d \<noteq> []" and db: "CHR ''}'' \<notin> set d" and ds: "\<not> has_sep d"
    by (simp_all add: word_def)
  from ne obtain y w where n: "n = y # w" by (cases n) auto
  have "last_sep (w @ '':-'' @ d) = Some (w, d)"
    using de no_sep_last_sep[OF ds] by (rule last_sep_at_sep)
  then have sd: "split_default (n @ '':-'' @ d) = Some (n, d)"
    by (simp add: split_default_def n del: last_sep.simps)
  have "n @ '':-'' @ d \<noteq> []" and "CHR ''}'' \<notin> set (n @ '':-'' @ d)"
    using ne nb db by simp_all
  then have r: "reference (CHR ''$'' # CHR ''{'' # (n @ '':-'' @ d) @ CHR ''}'' # s)
      = Some (n @ '':-'' @ d, s)"
    by (rule reference_at)
  from rewrite_spec_default[OF r sd, of vars] show ?thesis
    by (simp add: ref_to_def del: rewrite_spec.simps)
qed

lemma piece_step:
  "simple_piece p \<Longrightarrow>
   rewrite_spec vars (render_piece p @ s) = render_piece (resolve vars p) @ rewrite_spec vars s"
proof (cases p)
  case (Plain t)
  assume "simple_piece p"
  with Plain show ?thesis using plain_step[of t vars s] by simp
next
  case (Ref n)
  assume "simple_piece p"
  with Ref show ?thesis using ref_step[of n vars s] by simp
next
  case (RefDefault n d)
  assume "simple_piece p"
  with RefDefault show ?thesis using ref_default_step[of n d vars s] by simp
qed

lemma resolve_simple: "simple_piece p \<Longrightarrow> simple_piece (resolve vars p)"
  by (cases p) (auto simp: word_def)

lemma resolve_twice: "resolve vars (resolve vars p) = resolve vars p"
  by (cases p) auto

lemma rewrite_spec_render:
  "\<forall>p \<in> set ps. simple_piece p \<Longrightarrow>
   rewrite_spec vars (render ps) = render (map (resolve vars) ps)"
proof (induction ps)
  case Nil
  then show ?case by (simp add: render_def)
next
  case (Cons p ps)
  then have p: "simple_piece p" and ps: "\<forall>q \<in> set ps. simple_piece q" by auto
  have "rewrite_spec vars (render_piece p @ render ps)
        = render_piece (resolve vars p) @ rewrite_spec vars (render ps)"
    using p by (rule piece_step)
  with Cons.IH[OF ps] show ?case by (simp add: render_def)
qed

text \<open>
  Claim C3, as the specification states it: rewriting the rewriter's output gives that
  output again, for every text and every Variable Table. This fails. With an empty table
  the text \<^verbatim>\<open>${A:-${B:-}c}\<close> is rewritten to \<^verbatim>\<open>${B:-c}\<close> (the first closing brace
  ends the reference, whose default is \<^verbatim>\<open>${B:-\<close>), and rewriting that gives \<open>c\<close>.
\<close>

theorem rewrite_twice_counterexample:
  "replace_env_vars [] (replace_env_vars [] ''${A:-${B:-}c}'')
     \<noteq> replace_env_vars [] ''${A:-${B:-}c}''"
proof -
  have once: "replace_env_vars [] ''${A:-${B:-}c}'' = ''${B:-c}''"
    by (simp add: replace_env_vars_def pat_default_def pat_bare_def seqs_def match_at_def
          replace_var_def ref_to_def has_key_def)
  have twice: "replace_env_vars [] ''${B:-c}'' = ''c''"
    by (simp add: replace_env_vars_def pat_default_def pat_bare_def seqs_def match_at_def
          replace_var_def ref_to_def has_key_def)
  show ?thesis by (simp only: once twice) simp
qed

text \<open>
  Claim C3, amended. Rewriting is idempotent, for every Variable Table, on every text that
  is a sequence of pieces of these three kinds: plain text without \<^verbatim>\<open>$\<close>, a bare
  reference \<^verbatim>\<open>${N}\<close>, and a reference with a default \<^verbatim>\<open>${N:-D}\<close>, where \<open>N\<close> and
  \<open>D\<close> are words: non-empty, without \<^verbatim>\<open>$\<close>, without \<^verbatim>\<open>}\<close> and without
  \<^verbatim>\<open>:-\<close>.
\<close>

theorem rewrite_idempotent_on_simple_texts:
  assumes "\<forall>p \<in> set ps. simple_piece p"
  shows "replace_env_vars vars (replace_env_vars vars (render ps))
         = replace_env_vars vars (render ps)"
proof -
  have s1: "\<forall>p \<in> set (map (resolve vars) ps). simple_piece p"
    using assms by (auto intro: resolve_simple)
  have e: "replace_env_vars vars t = rewrite_spec vars t" for t
    by (rule replace_env_vars_rewrite_spec)
  have "rewrite_spec vars (render ps) = render (map (resolve vars) ps)"
    using assms by (rule rewrite_spec_render)
  moreover have "rewrite_spec vars (render (map (resolve vars) ps))
        = render (map (resolve vars) (map (resolve vars) ps))"
    using s1 by (rule rewrite_spec_render)
  moreover have "map (resolve vars) (map (resolve vars) ps) = map (resolve vars) ps"
    by (simp add: resolve_twice)
  ultimately show ?thesis by (simp only: e)
qed

theorem rewrite_idempotent_on_simple_texts_witness:
  "replace_env_vars [(''HOME'', ''x'')]
       (replace_env_vars [(''HOME'', ''x'')] ''img:${TAG:-latest} ${HOME:-/root} ${USER}'')
     = replace_env_vars [(''HOME'', ''x'')] ''img:${TAG:-latest} ${HOME:-/root} ${USER}''"
  using rewrite_idempotent_on_simple_texts
    [of "[Plain ''img:'', RefDefault ''TAG'' ''latest'', Plain '' '',
          RefDefault ''HOME'' ''/root'', Plain '' '', Ref ''USER'']" "[(''HOME'', ''x'')]"]
  by (simp add: render_def word_def)

end
